theory Spec2Isabelle
  imports Complex_Main "HOL-Library.Word"
begin

section \<open>Strings and values of the runtime\<close>

text \<open>
  The sources are TypeScript. A string of the runtime is a sequence of UTF-16 code units;
  \<open>length\<close>, \<open>trim\<close>, \<open>split\<close>, \<open>replace\<close> and the regular expressions of the
  sources (none has the \<open>u\<close> flag) all work on code units. A string is therefore a list
  of 16-bit words, and \<open>str\<close> embeds an ASCII literal. Text outside ASCII (the Russian
  literals of the sources) is written as its code units.
\<close>

type_synonym jsstring = "16 word list"

definition str :: "string \<Rightarrow> jsstring" where
  "str s = map of_char s"

text \<open>
  A value as \<open>JSON.parse\<close> returns it, plus \<open>undefined\<close> for a missing property.
  A number is kept as the decimal \<open>m * 10 ^ e\<close> that its literal denotes (the runtime
  rounds it to a double; the sources only test numbers for truthiness and pass them on).
  The two differ outside the range of a double: a literal such as \<open>1e-400\<close>, which the
  runtime reads as 0, is a number other than 0 here.
  An object is the list of its own properties in insertion order (the runtime puts keys
  that are array indices first; the sources name no such key).
\<close>

datatype jv =
    JUndefined
  | JNull
  | JBool bool
  | JNum int int
  | JStr jsstring
  | JArr "jv list"
  | JObj "(jsstring \<times> jv) list"

fun truthy :: "jv \<Rightarrow> bool" where
  "truthy JUndefined = False"
| "truthy JNull = False"
| "truthy (JBool b) = b"
| "truthy (JNum m e) = (m \<noteq> 0)"
| "truthy (JStr s) = (s \<noteq> [])"
| "truthy (JArr xs) = True"
| "truthy (JObj ps) = True"

text \<open>\<open>a || b\<close>\<close>

definition js_or :: "jv \<Rightarrow> jv \<Rightarrow> jv" where
  "js_or a b = (if truthy a then a else b)"

text \<open>Errors are values. \<open>Error msg\<close> is \<open>new Error(msg)\<close>, \<open>TypeError\<close> and
  \<open>SyntaxError\<close> are thrown by the runtime itself, and \<open>Rejected\<close> is the reason of a
  promise that the storage or the network rejects.\<close>

datatype js_error = Error jsstring | TypeError | SyntaxError | Rejected

text \<open>Assignment to a property: an existing key keeps its place, a new one goes last.
  The same rule governs \<open>Map.set\<close>.\<close>

fun obj_set :: "'k \<Rightarrow> 'v \<Rightarrow> ('k \<times> 'v) list \<Rightarrow> ('k \<times> 'v) list" where
  "obj_set k v [] = [(k, v)]"
| "obj_set k v ((k', v') # ps) =
     (if k' = k then (k, v) # ps else (k', v') # obj_set k v ps)"

text \<open>
  Reading a property \<open>d.k\<close>: a \<open>TypeError\<close> on \<open>null\<close> and \<open>undefined\<close>, the own
  property of an object, and \<open>undefined\<close> otherwise (none of the property names read by
  the sources is inherited from a prototype).
\<close>

fun get_prop :: "jv \<Rightarrow> jsstring \<Rightarrow> js_error + jv" where
  "get_prop JUndefined k = Inl TypeError"
| "get_prop JNull k = Inl TypeError"
| "get_prop (JObj ps) k = Inr (case map_of ps k of None \<Rightarrow> JUndefined | Some v \<Rightarrow> v)"
| "get_prop v k = Inr JUndefined"

subsection \<open>String operations\<close>

text \<open>White space as \<open>String.prototype.trim\<close> and the class \<open>\s\<close> see it.\<close>

definition ws_units :: "16 word list" where
  "ws_units =
     [0x09, 0x0A, 0x0B, 0x0C, 0x0D, 0x20, 0xA0, 0x1680, 0x2000, 0x2001, 0x2002, 0x2003,
      0x2004, 0x2005, 0x2006, 0x2007, 0x2008, 0x2009, 0x200A, 0x2028, 0x2029, 0x202F,
      0x205F, 0x3000, 0xFEFF]"

definition is_ws :: "16 word \<Rightarrow> bool" where
  "is_ws c \<longleftrightarrow> c \<in> set ws_units"

definition trim :: "jsstring \<Rightarrow> jsstring" where
  "trim s = rev (dropWhile is_ws (rev (dropWhile is_ws s)))"

text \<open>The first occurrence of \<open>pat\<close> in a string: the text before it and the text
  after it.\<close>

fun split_first :: "jsstring \<Rightarrow> jsstring \<Rightarrow> (jsstring \<times> jsstring) option" where
  "split_first pat [] = (if pat = [] then Some ([], []) else None)"
| "split_first pat (c # cs) =
     (if take (length pat) (c # cs) = pat then Some ([], drop (length pat) (c # cs))
      else (case split_first pat cs of
              None \<Rightarrow> None
            | Some (a, b) \<Rightarrow> Some (c # a, b)))"

text \<open>\<open>s.replace(pat, '')\<close> with a string pattern: only the first occurrence goes.\<close>

definition replace_first :: "jsstring \<Rightarrow> jsstring \<Rightarrow> jsstring" where
  "replace_first pat s = (case split_first pat s of None \<Rightarrow> s | Some (a, b) \<Rightarrow> a @ b)"

text \<open>\<open>s.split(c)\<close> for a separator of one code unit: every piece, also the empty
  ones.\<close>

fun split_on :: "16 word \<Rightarrow> jsstring \<Rightarrow> jsstring list" where
  "split_on c [] = [[]]"
| "split_on c (x # xs) =
     (if x = c then [] # split_on c xs
      else (case split_on c xs of
              [] \<Rightarrow> [[x]]
            | p # ps \<Rightarrow> (x # p) # ps))"

subsection \<open>\<open>JSON.parse\<close>\<close>

text \<open>
  The parser of the runtime, by recursive descent. Each nested call of the three mutually
  recursive functions spends one unit of fuel; \<open>JSON_parse\<close> supplies twice the length
  of the text and two more, which is more than any text needs (lemma
  \<open>JSON_parse_any_fuel\<close>). \<open>None\<close> is the \<open>SyntaxError\<close>.
\<close>

definition json_ws :: "16 word \<Rightarrow> bool" where
  "json_ws c \<longleftrightarrow> c = 0x20 \<or> c = 0x09 \<or> c = 0x0A \<or> c = 0x0D"

definition is_digit :: "16 word \<Rightarrow> bool" where
  "is_digit c \<longleftrightarrow> 0x30 \<le> c \<and> c \<le> 0x39"

definition digit_val :: "16 word \<Rightarrow> int" where
  "digit_val c = int (unat c) - 48"

definition digits_val :: "jsstring \<Rightarrow> int" where
  "digits_val ds = foldl (\<lambda>a d. 10 * a + digit_val d) 0 ds"

definition hex_val :: "16 word \<Rightarrow> nat option" where
  "hex_val c =
     (if 0x30 \<le> c \<and> c \<le> 0x39 then Some (unat c - 48)
      else if 0x41 \<le> c \<and> c \<le> 0x46 then Some (unat c - 55)
      else if 0x61 \<le> c \<and> c \<le> 0x66 then Some (unat c - 87)
      else None)"

definition hex4 :: "jsstring \<Rightarrow> 16 word option" where
  "hex4 s =
     (case map hex_val (take 4 s) of
        [Some a, Some b, Some c, Some d] \<Rightarrow> Some (of_nat (((a * 16 + b) * 16 + c) * 16 + d))
      | _ \<Rightarrow> None)"

definition unescape :: "16 word \<Rightarrow> 16 word option" where
  "unescape e =
     (if e = 0x22 \<or> e = 0x5C \<or> e = 0x2F then Some e
      else if e = 0x62 then Some 0x08
      else if e = 0x66 then Some 0x0C
      else if e = 0x6E then Some 0x0A
      else if e = 0x72 then Some 0x0D
      else if e = 0x74 then Some 0x09
      else None)"

text \<open>The characters of a string literal after its opening quote.\<close>

fun parse_string :: "jsstring \<Rightarrow> (jsstring \<times> jsstring) option" where
  "parse_string [] = None"
| "parse_string (c # cs) =
     (if c = 0x22 then Some ([], cs)
      else if c = 0x5C then
        (case cs of
           [] \<Rightarrow> None
         | e # r \<Rightarrow>
             if e = 0x75 then
               (case hex4 r of
                  None \<Rightarrow> None
                | Some u \<Rightarrow>
                    (case parse_string (drop 4 r) of
                       None \<Rightarrow> None
                     | Some (t, rest) \<Rightarrow> Some (u # t, rest)))
             else
               (case unescape e of
                  None \<Rightarrow> None
                | Some u \<Rightarrow>
                    (case parse_string r of
                       None \<Rightarrow> None
                     | Some (t, rest) \<Rightarrow> Some (u # t, rest))))
      else if c < 0x20 then None
      else (case parse_string cs of
              None \<Rightarrow> None
            | Some (t, rest) \<Rightarrow> Some (c # t, rest)))"

text \<open>A number literal: \<open>-? (0 | [1-9][0-9]*) (\.[0-9]+)? ([eE][+-]?[0-9]+)?\<close>.\<close>

definition parse_exponent :: "jsstring \<Rightarrow> (int \<times> jsstring) option" where
  "parse_exponent s =
     (case s of
        [] \<Rightarrow> Some (0, s)
      | c # r \<Rightarrow>
          if c = 0x65 \<or> c = 0x45 then
            (let neg = (r \<noteq> [] \<and> hd r = 0x2D);
                 r1 = (if r \<noteq> [] \<and> (hd r = 0x2D \<or> hd r = 0x2B) then tl r else r);
                 ds = takeWhile is_digit r1
             in if ds = [] then None
                else Some ((if neg then - digits_val ds else digits_val ds),
                           dropWhile is_digit r1))
          else Some (0, s))"

definition parse_number :: "jsstring \<Rightarrow> (jv \<times> jsstring) option" where
  "parse_number s =
     (let neg = (s \<noteq> [] \<and> hd s = 0x2D);
          s1 = (if neg then tl s else s);
          ip = takeWhile is_digit s1;
          s2 = dropWhile is_digit s1
      in if ip = [] \<or> (hd ip = 0x30 \<and> length ip > 1) then None
         else
           (let has_frac = (s2 \<noteq> [] \<and> hd s2 = 0x2E);
                fp = (if has_frac then takeWhile is_digit (tl s2) else []);
                s3 = (if has_frac then dropWhile is_digit (tl s2) else s2)
            in if has_frac \<and> fp = [] then None
               else
                 (case parse_exponent s3 of
                    None \<Rightarrow> None
                  | Some (ex, s4) \<Rightarrow>
                      Some (JNum ((if neg then -1 else 1) * digits_val (ip @ fp))
                                 (ex - int (length fp)), s4))))"

definition expect :: "16 word \<Rightarrow> jsstring \<Rightarrow> jsstring option" where
  "expect c s = (case s of [] \<Rightarrow> None | x # r \<Rightarrow> if x = c then Some r else None)"

definition literal :: "jsstring \<Rightarrow> jsstring \<Rightarrow> jsstring option" where
  "literal w s = (if take (length w) s = w then Some (drop (length w) s) else None)"

fun parse_value :: "nat \<Rightarrow> jsstring \<Rightarrow> (jv \<times> jsstring) option"
  and parse_elements :: "nat \<Rightarrow> jv list \<Rightarrow> jsstring \<Rightarrow> (jv \<times> jsstring) option"
  and parse_members :: "nat \<Rightarrow> (jsstring \<times> jv) list \<Rightarrow> jsstring \<Rightarrow> (jv \<times> jsstring) option"
where
  "parse_value 0 s = None"
| "parse_value (Suc n) s =
     (case dropWhile json_ws s of
        [] \<Rightarrow> None
      | c # cs \<Rightarrow>
          if c = 0x7B then
            (case expect 0x7D (dropWhile json_ws cs) of
               Some r \<Rightarrow> Some (JObj [], r)
             | None \<Rightarrow> parse_members n [] cs)
          else if c = 0x5B then
            (case expect 0x5D (dropWhile json_ws cs) of
               Some r \<Rightarrow> Some (JArr [], r)
             | None \<Rightarrow> parse_elements n [] cs)
          else if c = 0x22 then
            (case parse_string cs of
               None \<Rightarrow> None
             | Some (t, r) \<Rightarrow> Some (JStr t, r))
          else if c = 0x74 then map_option (Pair (JBool True)) (literal (str ''true'') (c # cs))
          else if c = 0x66 then map_option (Pair (JBool False)) (literal (str ''false'') (c # cs))
          else if c = 0x6E then map_option (Pair JNull) (literal (str ''null'') (c # cs))
          else parse_number (c # cs))"
| "parse_elements 0 acc s = None"
| "parse_elements (Suc n) acc s =
     (case parse_value n s of
        None \<Rightarrow> None
      | Some (v, r) \<Rightarrow>
          (case dropWhile json_ws r of
             [] \<Rightarrow> None
           | c # r' \<Rightarrow>
               if c = 0x2C then parse_elements n (acc @ [v]) r'
               else if c = 0x5D then Some (JArr (acc @ [v]), r')
               else None))"
| "parse_members 0 acc s = None"
| "parse_members (Suc n) acc s =
     (case expect 0x22 (dropWhile json_ws s) of
        None \<Rightarrow> None
      | Some r \<Rightarrow>
          (case parse_string r of
             None \<Rightarrow> None
           | Some (k, r1) \<Rightarrow>
               (case expect 0x3A (dropWhile json_ws r1) of
                  None \<Rightarrow> None
                | Some r2 \<Rightarrow>
                    (case parse_value n r2 of
                       None \<Rightarrow> None
                     | Some (v, r3) \<Rightarrow>
                         (case dropWhile json_ws r3 of
                            [] \<Rightarrow> None
                          | c # r4 \<Rightarrow>
                              if c = 0x2C then parse_members n (obj_set k v acc) r4
                              else if c = 0x7D then Some (JObj (obj_set k v acc), r4)
                              else None)))))"

definition JSON_parse :: "jsstring \<Rightarrow> js_error + jv" where
  "JSON_parse s =
     (case parse_value (2 * length s + 2) s of
        None \<Rightarrow> Inl SyntaxError
      | Some (v, r) \<Rightarrow> if dropWhile json_ws r = [] then Inr v else Inl SyntaxError)"


section \<open>Intent extraction (\<open>AICoreService.parseResponse\<close>)\<close>

record systemIntent =
  action :: jsstring
  data :: jv

record parsedResponse =
  text' :: jsstring
  intents :: "systemIntent list"

definition tag_open :: jsstring where
  "tag_open = str ''<system>''"

definition tag_close :: jsstring where
  "tag_close = str ''</system>''"

text \<open>
  One call of \<open>systemIntentRegex.exec\<close>, on the part of the response from \<open>lastIndex\<close>
  on. The expression is \<open>/<system>(.*?)<\/system>/gs\<close>: the match starts at the first
  opening marker that has a closing marker after it, and the lazy group ends at the first
  closing marker. When the first opening marker has no closing marker after it, no later
  one has. The result is \<open>match[0]\<close>, \<open>match[1]\<close> and the text after the match.
\<close>

definition systemIntentRegex_exec :: "jsstring \<Rightarrow> (jsstring \<times> jsstring \<times> jsstring) option" where
  "systemIntentRegex_exec s =
     (case split_first tag_open s of
        None \<Rightarrow> None
      | Some (before, r1) \<Rightarrow>
          (case split_first tag_close r1 of
             None \<Rightarrow> None
           | Some (inner, r2) \<Rightarrow> Some (tag_open @ inner @ tag_close, inner, r2)))"

text \<open>
  The body of the \<open>try\<close> block up to the \<open>push\<close>. \<open>split(':', 2)\<close> cuts the text at
  every colon and keeps the first two pieces. A missing or empty second piece gives the
  empty object; \<open>Inl\<close> is the exception that the \<open>catch\<close> logs.
\<close>

definition parse_intent :: "jsstring \<Rightarrow> js_error + systemIntent" where
  "parse_intent group1 =
     (let intentText = trim group1 in
      case take 2 (split_on 0x3A intentText) of
        [] \<Rightarrow> Inl TypeError
      | [act] \<Rightarrow> Inr \<lparr>action = trim act, data = JObj []\<rparr>
      | act # dataStr # _ \<Rightarrow>
          (case (if dataStr \<noteq> [] then JSON_parse (trim dataStr) else Inr (JObj [])) of
             Inl e \<Rightarrow> Inl e
           | Inr d \<Rightarrow> Inr \<lparr>action = trim act, data = d\<rparr>))"

text \<open>The \<open>while\<close> loop: \<open>rest\<close> is the response from \<open>lastIndex\<close> on.\<close>

function parse_loop :: "jsstring \<Rightarrow> systemIntent list \<Rightarrow> jsstring \<Rightarrow> systemIntent list \<times> jsstring" where
  "parse_loop rest found cleanText =
     (case systemIntentRegex_exec rest of
        None \<Rightarrow> (found, cleanText)
      | Some (match0, group1, rest') \<Rightarrow>
          (case parse_intent group1 of
             Inl e \<Rightarrow> parse_loop rest' found cleanText
           | Inr i \<Rightarrow> parse_loop rest' (found @ [i]) (replace_first match0 cleanText)))"
  by pat_completeness auto
termination
proof (relation "measure (\<lambda>(rest, found, cleanText). length rest)")
  have len: "length a + length pat + length b = length s"
    if "split_first pat s = Some (a, b)" for pat s a b
    using that
  proof (induction s arbitrary: a)
    case Nil
    then show ?case by (simp split: if_splits)
  next
    case (Cons c cs)
    show ?case
    proof (cases "take (length pat) (c # cs) = pat")
      case True
      then have "length (take (length pat) (c # cs)) = length pat"
        by (simp only:)
      then have "length pat \<le> length (c # cs)"
        by simp
      with True Cons.prems show ?thesis by auto
    next
      case False
      with Cons.prems obtain a' where "split_first pat cs = Some (a', b)" "a = c # a'"
        by (auto split: option.splits)
      with Cons.IH[of a'] show ?thesis by simp
    qed
  qed
  have shorter: "length r < length s"
    if "systemIntentRegex_exec s = Some (m, g, r)" for s m g r
  proof -
    from that obtain before r1 where 1: "split_first tag_open s = Some (before, r1)"
      and 2: "split_first tag_close r1 = Some (g, r)"
      by (auto simp: systemIntentRegex_exec_def split: option.splits)
    from len[OF 1] len[OF 2] show ?thesis
      by (simp add: tag_open_def str_def)
  qed
  show "wf (measure (\<lambda>(rest, found, cleanText). length rest))" by simp
  show "((rest', found, cleanText), (rest, found, cleanText))
          \<in> measure (\<lambda>(rest, found, cleanText). length rest)"
    if "systemIntentRegex_exec rest = Some x2" "(match0, y) = x2" "(group1, rest') = y"
    for rest found cleanText x2 match0 y group1 rest' 
    using that shorter by auto
  show "((rest', found @ [i], replace_first match0 cleanText), (rest, found, cleanText))
          \<in> measure (\<lambda>(rest, found, cleanText). length rest)"
    if "systemIntentRegex_exec rest = Some x2" "(match0, y) = x2" "(group1, rest') = y"
    for rest found cleanText x2 match0 y group1 rest' i
    using that shorter by auto
qed

declare parse_loop.simps [simp del]

definition parseResponse :: "jsstring \<Rightarrow> parsedResponse" where
  "parseResponse response =
     (case parse_loop response [] response of
        (found, cleanText) \<Rightarrow> \<lparr>text' = trim cleanText, intents = found\<rparr>)"

section \<open>The action interpreter (\<open>ActionInterpreter\<close>)\<close>

datatype appActionType =
    CREATE_TASK
  | UPDATE_TASK
  | DELETE_TASK
  | CREATE_GOAL
  | UPDATE_GOAL
  | CREATE_HABIT
  | COMPLETE_HABIT
  | NAVIGATE
  | CREATE_REFLECTION
  | DISPLAY_MESSAGE
  | TRACK_METRIC

record appAction =
  type' :: appActionType
  payload :: jv

text \<open>What the handlers read from the clock: \<open>new Date().toISOString()\<close> and
  \<open>new Date().toLocaleDateString()\<close>.\<close>

record clock =
  isoString :: jsstring
  localeDateString :: jsstring

text \<open>A later read of a property of \<open>data\<close>, after a first read has shown that
  \<open>data\<close> is neither \<open>null\<close> nor \<open>undefined\<close>.\<close>

definition field :: "jv \<Rightarrow> string \<Rightarrow> jv" where
  "field d k = (case get_prop d (str k) of Inl e \<Rightarrow> JUndefined | Inr v \<Rightarrow> v)"

text \<open>The first read, with the test of the required field: \<open>if (!data.k) throw new
  Error(msg)\<close>.\<close>

definition require :: "jv \<Rightarrow> string \<Rightarrow> string \<Rightarrow> js_error + jv" where
  "require d k msg =
     (case get_prop d (str k) of
        Inl e \<Rightarrow> Inl e
      | Inr v \<Rightarrow> if truthy v then Inr v else Inl (Error (str msg)))"

text \<open>A string literal as a value.\<close>

definition S :: "string \<Rightarrow> jv" where
  "S s = JStr (str s)"

definition handleCreateTask :: "jv \<Rightarrow> js_error + appAction" where
  "handleCreateTask d =
     (case require d ''title'' ''Task title is required'' of
        Inl e \<Rightarrow> Inl e
      | Inr title \<Rightarrow>
          (let priority = js_or (field d ''priority'') (S ''medium'');
               priority = (if priority \<notin> set [S ''high'', S ''medium'', S ''low'']
                           then S ''medium'' else priority)
           in Inr \<lparr>type' = CREATE_TASK,
                   payload = JObj
                     [(str ''title'', title),
                      (str ''description'', js_or (field d ''description'') (JStr [])),
                      (str ''dueDate'', js_or (field d ''dueDate'') JNull),
                      (str ''priority'', priority),
                      (str ''category'', js_or (field d ''category'') JNull),
                      (str ''tags'', js_or (field d ''tags'') (JArr [])),
                      (str ''status'', js_or (field d ''status'') (S ''pending''))]\<rparr>))"

definition handleUpdateTask :: "jv \<Rightarrow> js_error + appAction" where
  "handleUpdateTask d =
     (case require d ''id'' ''Task ID is required'' of
        Inl e \<Rightarrow> Inl e
      | Inr ident \<Rightarrow>
          Inr \<lparr>type' = UPDATE_TASK,
               payload = JObj
                 [(str ''id'', ident),
                  (str ''updates'', JObj
                     [(str ''title'', field d ''title''),
                      (str ''description'', field d ''description''),
                      (str ''dueDate'', field d ''dueDate''),
                      (str ''priority'', field d ''priority''),
                      (str ''category'', field d ''category''),
                      (str ''tags'', field d ''tags''),
                      (str ''status'', field d ''status'')])]\<rparr>)"

definition handleDeleteTask :: "jv \<Rightarrow> js_error + appAction" where
  "handleDeleteTask d =
     (case require d ''id'' ''Task ID is required'' of
        Inl e \<Rightarrow> Inl e
      | Inr ident \<Rightarrow> Inr \<lparr>type' = DELETE_TASK, payload = JObj [(str ''id'', ident)]\<rparr>)"

definition handleCreateGoal :: "jv \<Rightarrow> js_error + appAction" where
  "handleCreateGoal d =
     (case require d ''title'' ''Goal title is required'' of
        Inl e \<Rightarrow> Inl e
      | Inr title \<Rightarrow>
          Inr \<lparr>type' = CREATE_GOAL,
               payload = JObj
                 [(str ''title'', title),
                  (str ''description'', js_or (field d ''description'') (JStr [])),
                  (str ''dueDate'', js_or (field d ''dueDate'') JNull),
                  (str ''parentId'', js_or (field d ''parentId'') JNull),
                  (str ''status'', js_or (field d ''status'') (S ''not_started'')),
                  (str ''tags'', js_or (field d ''tags'') (JArr [])),
                  (str ''category'', js_or (field d ''category'') JNull),
                  (str ''metrics'', js_or (field d ''metrics'') (JArr []))]\<rparr>)"

definition handleUpdateGoal :: "jv \<Rightarrow> js_error + appAction" where
  "handleUpdateGoal d =
     (case require d ''id'' ''Goal ID is required'' of
        Inl e \<Rightarrow> Inl e
      | Inr ident \<Rightarrow>
          Inr \<lparr>type' = UPDATE_GOAL,
               payload = JObj
                 [(str ''id'', ident),
                  (str ''updates'', JObj
                     [(str ''title'', field d ''title''),
                      (str ''description'', field d ''description''),
                      (str ''dueDate'', field d ''dueDate''),
                      (str ''status'', field d ''status''),
                      (str ''progress'', field d ''progress''),
                      (str ''tags'', field d ''tags''),
                      (str ''category'', field d ''category''),
                      (str ''metrics'', field d ''metrics'')])]\<rparr>)"

definition handleCreateHabit :: "jv \<Rightarrow> js_error + appAction" where
  "handleCreateHabit d =
     (case require d ''title'' ''Habit title is required'' of
        Inl e \<Rightarrow> Inl e
      | Inr title \<Rightarrow>
          Inr \<lparr>type' = CREATE_HABIT,
               payload = JObj
                 [(str ''title'', title),
                  (str ''description'', js_or (field d ''description'') (JStr [])),
                  (str ''frequency'', js_or (field d ''frequency'') (S ''daily'')),
                  (str ''timeOfDay'', js_or (field d ''timeOfDay'') JNull),
                  (str ''category'', js_or (field d ''category'') JNull),
                  (str ''triggers'', js_or (field d ''triggers'') (JArr [])),
                  (str ''obstacles'', js_or (field d ''obstacles'') (JArr [])),
                  (str ''strategies'', js_or (field d ''strategies'') (JArr []))]\<rparr>)"

text \<open>\<open>new Date().toISOString().split('T')[0]\<close>\<close>

definition today :: "clock \<Rightarrow> jsstring" where
  "today clk = (case split_on 0x54 (isoString clk) of [] \<Rightarrow> [] | d # _ \<Rightarrow> d)"

definition handleCompleteHabit :: "clock \<Rightarrow> jv \<Rightarrow> js_error + appAction" where
  "handleCompleteHabit clk d =
     (case require d ''id'' ''Habit ID is required'' of
        Inl e \<Rightarrow> Inl e
      | Inr ident \<Rightarrow>
          Inr \<lparr>type' = COMPLETE_HABIT,
               payload = JObj
                 [(str ''id'', ident),
                  (str ''date'', js_or (field d ''date'') (JStr (today clk)))]\<rparr>)"

definition handleNavigate :: "jv \<Rightarrow> js_error + appAction" where
  "handleNavigate d =
     (case require d ''screen'' ''Navigation screen is required'' of
        Inl e \<Rightarrow> Inl e
      | Inr screen \<Rightarrow>
          Inr \<lparr>type' = NAVIGATE,
               payload = JObj
                 [(str ''screen'', screen),
                  (str ''params'', js_or (field d ''params'') (JObj []))]\<rparr>)"

definition handleCreateReflection :: "clock \<Rightarrow> jv \<Rightarrow> js_error + appAction" where
  "handleCreateReflection clk d =
     (case require d ''content'' ''Reflection content is required'' of
        Inl e \<Rightarrow> Inl e
      | Inr content \<Rightarrow>
          Inr \<lparr>type' = CREATE_REFLECTION,
               payload = JObj
                 [(str ''content'', content),
                  (str ''title'', js_or (field d ''title'')
                                   (JStr (str ''Reflection - '' @ localeDateString clk))),
                  (str ''tags'', js_or (field d ''tags'') (JArr [])),
                  (str ''mood'', js_or (field d ''mood'') JNull),
                  (str ''relatedGoals'', js_or (field d ''relatedGoals'') (JArr []))]\<rparr>)"

definition handleDisplayMessage :: "jv \<Rightarrow> js_error + appAction" where
  "handleDisplayMessage d =
     (case require d ''message'' ''Display message is required'' of
        Inl e \<Rightarrow> Inl e
      | Inr message \<Rightarrow>
          Inr \<lparr>type' = DISPLAY_MESSAGE,
               payload = JObj
                 [(str ''message'', message),
                  (str ''type'', js_or (field d ''type'') (S ''info'')),
                  (str ''duration'', js_or (field d ''duration'') (JNum 3000 0))]\<rparr>)"

definition handleTrackMetric :: "clock \<Rightarrow> jv \<Rightarrow> js_error + appAction" where
  "handleTrackMetric clk d =
     (case get_prop d (str ''name'') of
        Inl e \<Rightarrow> Inl e
      | Inr name \<Rightarrow>
          if \<not> truthy name \<or> field d ''value'' = JUndefined
          then Inl (Error (str ''Metric name and value are required''))
          else
            Inr \<lparr>type' = TRACK_METRIC,
                 payload = JObj
                   [(str ''name'', name),
                    (str ''value'', field d ''value''),
                    (str ''timestamp'', js_or (field d ''timestamp'') (JStr (isoString clk))),
                    (str ''category'', js_or (field d ''category'') JNull),
                    (str ''notes'', js_or (field d ''notes'') JNull)]\<rparr>)"

text \<open>The \<open>switch\<close> of \<open>interpretIntent\<close>; \<open>None\<close> is the \<open>null\<close> of the default
  branch.\<close>

definition interpretIntent :: "clock \<Rightarrow> systemIntent \<Rightarrow> js_error + appAction option" where
  "interpretIntent clk intent =
     (let a = action intent; d = data intent in
      if a = str ''create_task'' then map_sum id Some (handleCreateTask d)
      else if a = str ''update_task'' then map_sum id Some (handleUpdateTask d)
      else if a = str ''delete_task'' then map_sum id Some (handleDeleteTask d)
      else if a = str ''create_goal'' then map_sum id Some (handleCreateGoal d)
      else if a = str ''update_goal'' then map_sum id Some (handleUpdateGoal d)
      else if a = str ''create_habit'' then map_sum id Some (handleCreateHabit d)
      else if a = str ''complete_habit'' then map_sum id Some (handleCompleteHabit clk d)
      else if a = str ''navigate'' then map_sum id Some (handleNavigate d)
      else if a = str ''create_reflection'' then map_sum id Some (handleCreateReflection clk d)
      else if a = str ''display_message'' then map_sum id Some (handleDisplayMessage d)
      else if a = str ''track_metric'' then map_sum id Some (handleTrackMetric clk d)
      else Inr None)"

text \<open>\<open>AICoreService.processSystemIntents\<close>: an intent whose handler throws is logged
  and left out.\<close>

fun processSystemIntents :: "clock \<Rightarrow> systemIntent list \<Rightarrow> appAction list" where
  "processSystemIntents clk [] = []"
| "processSystemIntents clk (i # is) =
     (case interpretIntent clk i of
        Inr (Some a) \<Rightarrow> a # processSystemIntents clk is
      | _ \<Rightarrow> processSystemIntents clk is)"

section \<open>Persistent storage (\<open>AsyncStorage\<close>)\<close>

text \<open>
  The key-value store of the device. Every call (\<open>getItem\<close>, \<open>setItem\<close>,
  \<open>removeItem\<close>) returns a promise that the platform may reject: \<open>rejects\<close> says which
  calls it rejects, counted from the first call on, and \<open>calls\<close> counts the calls made so
  far. A rejected call changes no entry. The engines write every value with
  \<open>JSON.stringify\<close> and read it back with \<open>JSON.parse\<close>; an entry holds the value
  that its text parses to.
\<close>

record 'v asyncStorage =
  entries :: "jsstring \<rightharpoonup> 'v"
  rejects :: "nat \<Rightarrow> bool"
  calls :: nat

definition rejected :: "'v asyncStorage \<Rightarrow> bool" where
  "rejected s = rejects s (calls s)"

definition called :: "'v asyncStorage \<Rightarrow> 'v asyncStorage" where
  "called s = s\<lparr>calls := Suc (calls s)\<rparr>"

definition getItem :: "jsstring \<Rightarrow> 'v asyncStorage \<Rightarrow> (js_error + 'v option) \<times> 'v asyncStorage" where
  "getItem k s = (if rejected s then Inl Rejected else Inr (entries s k), called s)"

definition setItem :: "jsstring \<Rightarrow> 'v \<Rightarrow> 'v asyncStorage \<Rightarrow> (js_error + unit) \<times> 'v asyncStorage" where
  "setItem k v s =
     (if rejected s then (Inl Rejected, called s)
      else (Inr (), called (s\<lparr>entries := (entries s)(k \<mapsto> v)\<rparr>)))"

definition removeItem :: "jsstring \<Rightarrow> 'v asyncStorage \<Rightarrow> (js_error + unit) \<times> 'v asyncStorage" where
  "removeItem k s =
     (if rejected s then (Inl Rejected, called s)
      else (Inr (), called (s\<lparr>entries := (entries s)(k := None)\<rparr>)))"

section \<open>The conversation memory (\<open>MemoryEngine\<close>)\<close>

datatype messageRole = User | Assistant | System

record message =
  message_id :: jsstring
  role :: messageRole
  content :: jsstring
  timestamp :: jsstring
  metadata :: "jv option"

definition role_string :: "messageRole \<Rightarrow> jsstring" where
  "role_string r = (case r of User \<Rightarrow> str ''user'' | Assistant \<Rightarrow> str ''assistant''
                    | System \<Rightarrow> str ''system'')"

text \<open>A message as \<open>JSON.stringify\<close> and \<open>JSON.parse\<close> hand it on: a property that is
  \<open>undefined\<close> is left out.\<close>

definition message_json :: "message \<Rightarrow> jv" where
  "message_json m =
     JObj ([(str ''id'', JStr (message_id m)),
            (str ''role'', JStr (role_string (role m))),
            (str ''content'', JStr (content m)),
            (str ''timestamp'', JStr (timestamp m))]
           @ (case metadata m of None \<Rightarrow> [] | Some md \<Rightarrow> [(str ''metadata'', md)]))"

definition conversationKey :: "jsstring \<Rightarrow> jsstring" where
  "conversationKey conversationId = str ''conv_'' @ conversationId"

definition memoryKey :: "jsstring \<Rightarrow> jsstring" where
  "memoryKey ident = str ''memory_'' @ ident"

definition indexKey :: "jsstring \<Rightarrow> jsstring" where
  "indexKey conversationId = str ''memory_index_'' @ conversationId"

text \<open>\<open>xs.push(v)\<close> on a parsed value: only an array has the method.\<close>

fun js_push :: "jv \<Rightarrow> jv \<Rightarrow> js_error + jv" where
  "js_push (JArr xs) v = Inr (JArr (xs @ [v]))"
| "js_push x v = Inl TypeError"

text \<open>\<open>xs.slice(start)\<close>: a negative start counts from the end, and \<open>-0\<close> is 0.\<close>

definition slice_from :: "int \<Rightarrow> 'a list \<Rightarrow> 'a list" where
  "slice_from start xs =
     (let n = int (length xs);
          k = (if start < 0 then max (n + start) 0 else min start n)
      in drop (nat k) xs)"

fun js_slice :: "jv \<Rightarrow> int \<Rightarrow> js_error + jv" where
  "js_slice (JArr xs) start = Inr (JArr (slice_from start xs))"
| "js_slice (JStr t) start = Inr (JStr (slice_from start t))"
| "js_slice x start = Inl TypeError"

subsection \<open>Keywords\<close>

text \<open>
  The case tables of the runtime are parameters: \<open>toLowerCase\<close> is
  \<open>String.prototype.toLowerCase\<close>, and \<open>canonicalize\<close> is the folding that a regular
  expression with the \<open>i\<close> flag applies to a code unit.
\<close>

record unicode =
  toLowerCase :: "jsstring \<Rightarrow> jsstring"
  canonicalize :: "16 word \<Rightarrow> 16 word"

text \<open>The members of the class \<open>[\wa-ya yo\s]\<close> of \<open>extractKeywords\<close>, whose letters
  \<open>a-ya\<close> and \<open>yo\<close> are the Cyrillic U+0430 to U+044F and U+0451.\<close>

definition keyword_class :: "16 word list" where
  "keyword_class =
     map of_nat ([0x30..<0x3A] @ [0x41..<0x5B] @ [0x5F] @ [0x61..<0x7B]
                 @ [0x430..<0x450] @ [0x451]) @ ws_units"

definition strip_punctuation :: "unicode \<Rightarrow> jsstring \<Rightarrow> jsstring" where
  "strip_punctuation U t =
     filter (\<lambda>c. canonicalize U c \<in> canonicalize U ` set keyword_class) t"

text \<open>\<open>t.split(/\s+/)\<close>: a run of white space is one separator.\<close>

fun split_ws :: "jsstring \<Rightarrow> jsstring list" where
  "split_ws [] = [[]]"
| "split_ws (c # cs) =
     (if is_ws c then
        (case cs of
           [] \<Rightarrow> [] # split_ws cs
         | d # r \<Rightarrow> if is_ws d then split_ws cs else [] # split_ws cs)
      else (case split_ws cs of
              [] \<Rightarrow> [[c]]
            | p # ps \<Rightarrow> (c # p) # ps))"

definition stopWords :: "jsstring list" where
  "stopWords =
     [str ''and'', str ''the'', str ''that'', str ''this'', str ''with'', str ''for'',
      str ''from'', str ''have'', str ''will'',
      [1101, 1090, 1086], [1082, 1072, 1082], [1095, 1090, 1086], [1075, 1076, 1077],
      [1082, 1086, 1075, 1076, 1072], [1082, 1086, 1090, 1086, 1088, 1099, 1081],
      [1076, 1083, 1103], [1080, 1083, 1080], [1077, 1089, 1090, 1100],
      [1073, 1099, 1090, 1100]]"

definition isStopWord :: "jsstring \<Rightarrow> bool" where
  "isStopWord w \<longleftrightarrow> w \<in> set stopWords"

definition extractKeywords :: "unicode \<Rightarrow> jsstring \<Rightarrow> jsstring list" where
  "extractKeywords U t =
     filter (\<lambda>w. \<not> isStopWord w)
       (filter (\<lambda>w. length w > 3)
          (split_ws (strip_punctuation U (toLowerCase U t))))"

subsection \<open>Messages and memory items\<close>

definition memoryItem :: "unicode \<Rightarrow> jsstring \<Rightarrow> message \<Rightarrow> jv" where
  "memoryItem U conversationId m =
     JObj [(str ''id'', JStr (message_id m)),
           (str ''conversationId'', JStr conversationId),
           (str ''content'', JStr (content m)),
           (str ''timestamp'', JStr (timestamp m)),
           (str ''role'', JStr (role_string (role m))),
           (str ''keywords'', JArr (map JStr (extractKeywords U (content m))))]"

text \<open>\<open>indexMessageForSearch\<close> catches whatever its body throws, so it returns the
  storage only.\<close>

definition indexMessageForSearch :: "unicode \<Rightarrow> jsstring \<Rightarrow> message \<Rightarrow> jv asyncStorage \<Rightarrow> jv asyncStorage" where
  "indexMessageForSearch U conversationId m s =
     (case setItem (memoryKey (message_id m)) (memoryItem U conversationId m) s of
        (Inl e, s1) \<Rightarrow> s1
      | (Inr u, s1) \<Rightarrow>
          (case getItem (indexKey conversationId) s1 of
             (Inl e, s2) \<Rightarrow> s2
           | (Inr existingIndex, s2) \<Rightarrow>
               (case js_push (case existingIndex of None \<Rightarrow> JArr [] | Some v \<Rightarrow> v)
                             (JStr (message_id m)) of
                  Inl e \<Rightarrow> s2
                | Inr memoryIds \<Rightarrow> snd (setItem (indexKey conversationId) memoryIds s2))))"

definition saveMessage :: "unicode \<Rightarrow> jsstring \<Rightarrow> message \<Rightarrow> jv asyncStorage \<Rightarrow> (js_error + unit) \<times> jv asyncStorage" where
  "saveMessage U conversationId m s =
     (case getItem (conversationKey conversationId) s of
        (Inl e, s1) \<Rightarrow> (Inl (Error (str ''Failed to save message'')), s1)
      | (Inr existingData, s1) \<Rightarrow>
          (case js_push (case existingData of None \<Rightarrow> JArr [] | Some v \<Rightarrow> v)
                        (message_json m) of
             Inl e \<Rightarrow> (Inl (Error (str ''Failed to save message'')), s1)
           | Inr messages \<Rightarrow>
               (case setItem (conversationKey conversationId) messages s1 of
                  (Inl e, s2) \<Rightarrow> (Inl (Error (str ''Failed to save message'')), s2)
                | (Inr u, s2) \<Rightarrow>
                    if length (trim (content m)) > 10
                    then (Inr (), indexMessageForSearch U conversationId m s2)
                    else (Inr (), s2))))"

definition getAllMessages :: "jsstring \<Rightarrow> jv asyncStorage \<Rightarrow> jv \<times> jv asyncStorage" where
  "getAllMessages conversationId s =
     (case getItem (conversationKey conversationId) s of
        (Inl e, s1) \<Rightarrow> (JArr [], s1)
      | (Inr None, s1) \<Rightarrow> (JArr [], s1)
      | (Inr (Some v), s1) \<Rightarrow> (v, s1))"

text \<open>\<open>limit\<close> is \<open>None\<close> when the caller leaves the argument out.\<close>

definition getRecentMessages :: "jsstring \<Rightarrow> int option \<Rightarrow> jv asyncStorage \<Rightarrow> jv \<times> jv asyncStorage" where
  "getRecentMessages conversationId limit s =
     (case getAllMessages conversationId s of
        (messages, s1) \<Rightarrow>
          (case js_slice messages (- (case limit of None \<Rightarrow> 10 | Some n \<Rightarrow> n)) of
             Inl e \<Rightarrow> (JArr [], s1)
           | Inr recent \<Rightarrow> (recent, s1)))"

subsection \<open>Clearing a conversation\<close>

text \<open>A natural number in decimal, the digits of a template literal.\<close>

function decimal :: "nat \<Rightarrow> jsstring" where
  "decimal n = (if n < 10 then [of_nat (48 + n)]
                else decimal (n div 10) @ [of_nat (48 + n mod 10)])"
  by pat_completeness auto
termination
  by (relation "measure (\<lambda>n. n)") auto

declare decimal.simps [simp del]

text \<open>
  \<open>String(v)\<close>, which a template literal applies. A number is written in plain decimal
  notation, which is what the runtime prints for a literal of up to 15 significant digits
  between \<open>1e-7\<close> and \<open>1e21\<close>. Outside this range the runtime prints the double
  that the literal rounds to, or uses the exponent notation, and the two can differ.
\<close>

definition number_to_string :: "int \<Rightarrow> int \<Rightarrow> jsstring" where
  "number_to_string m e =
     (let sign = (if m < 0 then str ''-'' else []); a = nat \<bar>m\<bar> in
      if 0 \<le> e then sign @ decimal (a * 10 ^ nat e)
      else
        (let k = nat (- e); whole = a div 10 ^ k; part = a mod 10 ^ k;
             ds = decimal part;
             frac = rev (dropWhile (\<lambda>c. c = 0x30) (rev (replicate (k - length ds) 0x30 @ ds)))
         in if part = 0 then sign @ decimal whole
            else sign @ decimal whole @ str ''.'' @ frac))"

fun join_comma :: "jsstring list \<Rightarrow> jsstring" where
  "join_comma [] = []"
| "join_comma [x] = x"
| "join_comma (x # y # ys) = x @ str '','' @ join_comma (y # ys)"

fun to_string :: "jv \<Rightarrow> jsstring" where
  "to_string JUndefined = str ''undefined''"
| "to_string JNull = str ''null''"
| "to_string (JBool b) = (if b then str ''true'' else str ''false'')"
| "to_string (JNum m e) = number_to_string m e"
| "to_string (JStr t) = t"
| "to_string (JArr xs) =
     join_comma (map (\<lambda>x. if x = JNull \<or> x = JUndefined then [] else to_string x) xs)"
| "to_string (JObj ps) = str ''[object Object]''"

text \<open>The values that \<open>for (const id of v)\<close> runs through: the elements of an array,
  the code points of a string; nothing else that \<open>JSON.parse\<close> returns is iterable.\<close>

fun code_points :: "jsstring \<Rightarrow> jsstring list" where
  "code_points [] = []"
| "code_points [c] = [[c]]"
| "code_points (c # d # r) =
     (if 0xD800 \<le> c \<and> c \<le> 0xDBFF \<and> 0xDC00 \<le> d \<and> d \<le> 0xDFFF
      then [c, d] # code_points r
      else [c] # code_points (d # r))"

fun js_iterate :: "jv \<Rightarrow> js_error + jv list" where
  "js_iterate (JArr xs) = Inr xs"
| "js_iterate (JStr t) = Inr (map JStr (code_points t))"
| "js_iterate x = Inl TypeError"

text \<open>The \<open>for\<close> loop of \<open>clearMemoryForConversation\<close>; a rejected call ends it.\<close>

fun removeMemoryItems :: "jv list \<Rightarrow> jv asyncStorage \<Rightarrow> (js_error + unit) \<times> jv asyncStorage" where
  "removeMemoryItems [] s = (Inr (), s)"
| "removeMemoryItems (ident # ids) s =
     (case removeItem (memoryKey (to_string ident)) s of
        (Inl e, s1) \<Rightarrow> (Inl e, s1)
      | (Inr u, s1) \<Rightarrow> removeMemoryItems ids s1)"

definition clearMemoryForConversation :: "jsstring \<Rightarrow> jv asyncStorage \<Rightarrow> jv asyncStorage" where
  "clearMemoryForConversation conversationId s =
     (case getItem (indexKey conversationId) s of
        (Inl e, s1) \<Rightarrow> s1
      | (Inr None, s1) \<Rightarrow> s1
      | (Inr (Some existingIndex), s1) \<Rightarrow>
          (case js_iterate existingIndex of
             Inl e \<Rightarrow> s1
           | Inr memoryIds \<Rightarrow>
               (case removeMemoryItems memoryIds s1 of
                  (Inl e, s2) \<Rightarrow> s2
                | (Inr u, s2) \<Rightarrow> snd (removeItem (indexKey conversationId) s2))))"

definition clearConversation :: "jsstring \<Rightarrow> jv asyncStorage \<Rightarrow> (js_error + unit) \<times> jv asyncStorage" where
  "clearConversation conversationId s =
     (case removeItem (conversationKey conversationId) s of
        (Inl e, s1) \<Rightarrow> (Inl (Error (str ''Failed to clear conversation'')), s1)
      | (Inr u, s1) \<Rightarrow> (Inr (), clearMemoryForConversation conversationId s1))"

section \<open>The persona store (\<open>PersonalityEngine\<close>)\<close>

text \<open>
  \<open>temperature\<close> is a number of the runtime that the sources only test for truthiness
  and pass on; it is a real here (\<open>NaN\<close>, falsy like 0, is not modelled). \<open>isCustom\<close> is
  optional in the sources and only ever tested for truthiness: \<open>False\<close> stands for
  \<open>false\<close> and for \<open>undefined\<close>.
\<close>

record persona =
  persona_id :: jsstring
  name :: jsstring
  description :: jsstring
  icon :: jsstring
  communicationStyle :: "jsstring list"
  values' :: "jsstring list"
  approach :: jsstring
  avoidTopics :: "jsstring list"
  temperature :: real
  welcomeMessage :: jsstring
  customInstructions :: "jsstring option"
  isCustom :: bool

text \<open>
  A profile is an object of the runtime, and the engine shares its objects with its
  callers: the \<open>Map\<close> holds references, \<open>getPersona\<close> and \<open>getAllPersonas\<close> hand these
  references out, and \<open>savePersona\<close> writes into the object it is given and stores that
  very object. So the state has a heap, the list of the profile objects created so far, and
  a reference is the position of an object in it; a new object goes to the end, and no
  object is ever removed. Only the properties of a profile are shared in this way: the
  arrays inside a profile are values here (the sources never write into one, although the
  copy that \<open>duplicatePersona\<close> makes shares them with its base).

  The engine: the heap, the \<open>Map\<close> of personas, in insertion order, and the storage,
  whose entry \<open>mentor_personas\<close> holds the list of custom personas as
  \<open>JSON.stringify\<close> wrote it, by value.
\<close>

type_synonym ref = nat

record personalityEngine =
  heap :: "persona list"
  personas :: "(jsstring \<times> ref) list"
  storage :: "persona list asyncStorage"

text \<open>A reference that is not a position of the heap stands for a value that is no
  object, such as \<open>undefined\<close>.\<close>

definition is_object :: "personalityEngine \<Rightarrow> ref \<Rightarrow> bool" where
  "is_object E r \<longleftrightarrow> r < length (heap E)"

definition object :: "personalityEngine \<Rightarrow> ref \<Rightarrow> persona" where
  "object E r = heap E ! r"

text \<open>An object literal, or an object that \<open>JSON.parse\<close> builds.\<close>

definition new_object :: "persona \<Rightarrow> personalityEngine \<Rightarrow> ref \<times> personalityEngine" where
  "new_object p E = (length (heap E), E\<lparr>heap := heap E @ [p]\<rparr>)"

text \<open>Assignments to properties of the object \<open>r\<close>, which turn its content \<open>p\<close> into
  \<open>f p\<close>.\<close>

definition assign :: "ref \<Rightarrow> (persona \<Rightarrow> persona) \<Rightarrow> personalityEngine \<Rightarrow> personalityEngine" where
  "assign r f E = E\<lparr>heap := (heap E)[r := f (heap E ! r)]\<rparr>"

definition personasKey :: jsstring where
  "personasKey = str ''mentor_personas''"

text \<open>\<open>Map.delete\<close>\<close>

definition map_delete :: "'k \<Rightarrow> ('k \<times> 'v) list \<Rightarrow> ('k \<times> 'v) list" where
  "map_delete k m = filter (\<lambda>(k', v). k' \<noteq> k) m"

text \<open>
  The built-in table of \<open>loadBuiltInPersonas\<close>. Its identifiers, temperatures and
  flags are those of the sources; its prose (names, descriptions, icons, styles, values,
  approaches, topics to avoid and welcome messages, all Russian text) is the parameter
  \<open>prose\<close>, from the identifier to a profile that carries the prose.
\<close>

definition builtIn :: "(string \<Rightarrow> persona) \<Rightarrow> string \<Rightarrow> real \<Rightarrow> persona" where
  "builtIn prose ident t =
     (prose ident)\<lparr>persona_id := str ident, temperature := t, customInstructions := None,
                   isCustom := False\<rparr>"

definition builtInPersonas :: "(string \<Rightarrow> persona) \<Rightarrow> persona list" where
  "builtInPersonas prose =
     [builtIn prose ''strategist'' (3 / 10),
      builtIn prose ''commander'' (4 / 10),
      builtIn prose ''architect'' (2 / 10),
      builtIn prose ''catalyst'' (6 / 10),
      builtIn prose ''tactical'' (4 / 10)]"

text \<open>
  \<open>this.personas.set(persona.id, persona)\<close> for a profile that has just been created,
  and for a list of them. Both loaders create all their objects before they store the
  first; creating each one just before it is stored gives the same heap and the same
  \<open>Map\<close>.
\<close>

definition set_new :: "persona \<Rightarrow> personalityEngine \<Rightarrow> personalityEngine" where
  "set_new p E =
     (case new_object p E of
        (r, E1) \<Rightarrow> E1\<lparr>personas := obj_set (persona_id p) r (personas E1)\<rparr>)"

definition set_all :: "persona list \<Rightarrow> personalityEngine \<Rightarrow> personalityEngine" where
  "set_all ps E = foldl (\<lambda>E' p. set_new p E') E ps"

definition loadBuiltInPersonas :: "(string \<Rightarrow> persona) \<Rightarrow> personalityEngine \<Rightarrow> personalityEngine" where
  "loadBuiltInPersonas prose E = set_all (builtInPersonas prose) E"

definition loadCustomPersonas :: "personalityEngine \<Rightarrow> personalityEngine" where
  "loadCustomPersonas E =
     (case getItem personasKey (storage E) of
        (Inl e, st) \<Rightarrow> E\<lparr>storage := st\<rparr>
      | (Inr None, st) \<Rightarrow> E\<lparr>storage := st\<rparr>
      | (Inr (Some customPersonas), st) \<Rightarrow> set_all customPersonas (E\<lparr>storage := st\<rparr>))"

definition initPersonas :: "(string \<Rightarrow> persona) \<Rightarrow> personalityEngine \<Rightarrow> personalityEngine" where
  "initPersonas prose E = loadCustomPersonas (loadBuiltInPersonas prose E)"

text \<open>The guard that opens every public method: \<open>if (this.personas.size === 0) await
  this.initPersonas()\<close>.\<close>

definition loaded :: "(string \<Rightarrow> persona) \<Rightarrow> personalityEngine \<Rightarrow> personalityEngine" where
  "loaded prose E = (if personas E = [] then initPersonas prose E else E)"

text \<open>\<open>getAllPersonas\<close> returns a new array of the stored objects themselves.\<close>

definition getAllPersonas :: "(string \<Rightarrow> persona) \<Rightarrow> personalityEngine \<Rightarrow> ref list \<times> personalityEngine" where
  "getAllPersonas prose E = (let E1 = loaded prose E in (map snd (personas E1), E1))"

text \<open>\<open>getPersona\<close> returns the stored object itself. \<open>None\<close> is the \<open>undefined\<close>
  that \<open>Array.from(...)[0]\<close> gives on an empty \<open>Map\<close>.\<close>

definition getPersona :: "(string \<Rightarrow> persona) \<Rightarrow> jsstring \<Rightarrow> personalityEngine \<Rightarrow> ref option \<times> personalityEngine" where
  "getPersona prose personaId E =
     (let E1 = loaded prose E in
      case map_of (personas E1) personaId of
        Some p \<Rightarrow> (Some p, E1)
      | None \<Rightarrow>
          (case map_of (personas E1) (str ''commander'') of
             Some c \<Rightarrow> (Some c, E1)
           | None \<Rightarrow>
               (case personas E1 of
                  [] \<Rightarrow> (None, E1)
                | (k, p0) # rest \<Rightarrow> (Some p0, E1))))"

text \<open>The custom personas are written by value, as they are when the call is made.\<close>

definition saveCustomPersonas :: "personalityEngine \<Rightarrow> (js_error + unit) \<times> personalityEngine" where
  "saveCustomPersonas E =
     (case setItem personasKey (filter isCustom (map (object E) (map snd (personas E))))
             (storage E) of
        (Inl e, st) \<Rightarrow> (Inl (Error (str ''Failed to save custom personas'')), E\<lparr>storage := st\<rparr>)
      | (Inr u, st) \<Rightarrow> (Inr (), E\<lparr>storage := st\<rparr>))"

text \<open>The two assignments that open \<open>savePersona\<close>: the profile is marked custom, and
  a profile without identifier gets one from \<open>Date.now()\<close>, which is \<open>now\<close>.\<close>

definition markCustom :: "nat \<Rightarrow> persona \<Rightarrow> persona" where
  "markCustom now p =
     (let p1 = p\<lparr>isCustom := True\<rparr>
      in if persona_id p1 = [] then p1\<lparr>persona_id := str ''persona_'' @ decimal now\<rparr>
         else p1)"

text \<open>
  \<open>savePersona\<close> takes a reference: the assignments go to the object of the caller,
  which may be one that the \<open>Map\<close> already holds, under the same identifier or under
  another one. When the argument is no object, the first assignment throws a
  \<open>TypeError\<close>, after the guard has run, and the \<open>catch\<close> replaces it.
\<close>

definition savePersona :: "(string \<Rightarrow> persona) \<Rightarrow> nat \<Rightarrow> ref \<Rightarrow> personalityEngine \<Rightarrow> (js_error + unit) \<times> personalityEngine" where
  "savePersona prose now persona E =
     (let E1 = loaded prose E in
      if \<not> is_object E persona then (Inl (Error (str ''Failed to save persona'')), E1)
      else
        (let E2 = assign persona (markCustom now) E1;
             E3 = E2\<lparr>personas := obj_set (persona_id (object E2 persona)) persona (personas E2)\<rparr>
         in case saveCustomPersonas E3 of
              (Inl e, E4) \<Rightarrow> (Inl (Error (str ''Failed to save persona'')), E4)
            | (Inr u, E4) \<Rightarrow> (Inr (), E4)))"

text \<open>The \<open>else\<close> branch throws \<open>Cannot delete built-in persona\<close>; the \<open>catch\<close>
  around the body replaces whatever was thrown by \<open>Failed to delete persona\<close>.\<close>

definition deletePersona :: "(string \<Rightarrow> persona) \<Rightarrow> jsstring \<Rightarrow> personalityEngine \<Rightarrow> (js_error + unit) \<times> personalityEngine" where
  "deletePersona prose personaId E =
     (let E1 = loaded prose E in
      case map_of (personas E1) personaId of
        None \<Rightarrow> (Inl (Error (str ''Failed to delete persona'')), E1)
      | Some persona \<Rightarrow>
          if isCustom (object E1 persona) then
            (case saveCustomPersonas (E1\<lparr>personas := map_delete personaId (personas E1)\<rparr>) of
               (Inl e, E2) \<Rightarrow> (Inl (Error (str ''Failed to delete persona'')), E2)
             | (Inr u, E2) \<Rightarrow> (Inr (), E2))
          else (Inl (Error (str ''Failed to delete persona'')), E1))"

text \<open>The suffix of the default name of a copy, a space and the Russian for "copy" in
  brackets.\<close>

definition copy_suffix :: jsstring where
  "copy_suffix = [0x20, 0x28, 1082, 1086, 1087, 1080, 1103, 0x29]"

text \<open>The object literal of \<open>duplicatePersona\<close>: the properties of the base profile
  with a new identifier, the new name or the default one, and the custom mark.\<close>

definition copyOf :: "nat \<Rightarrow> jsstring \<Rightarrow> persona \<Rightarrow> persona" where
  "copyOf now newName basePersona =
     basePersona
       \<lparr>persona_id := str ''persona_'' @ decimal now,
        name := (if newName \<noteq> [] then newName else name basePersona @ copy_suffix),
        isCustom := True\<rparr>"

text \<open>\<open>duplicatePersona\<close> creates a new object, saves it and returns it.\<close>

definition duplicatePersona :: "(string \<Rightarrow> persona) \<Rightarrow> nat \<Rightarrow> jsstring \<Rightarrow> jsstring \<Rightarrow> personalityEngine \<Rightarrow> (js_error + ref) \<times> personalityEngine" where
  "duplicatePersona prose now basePersonaId newName E =
     (case getPersona prose basePersonaId (loaded prose E) of
        (None, E1) \<Rightarrow> (Inl (Error (str ''Failed to duplicate persona'')), E1)
      | (Some basePersona, E1) \<Rightarrow>
          (case new_object (copyOf now newName (object E1 basePersona)) E1 of
             (newPersona, E2) \<Rightarrow>
               (case savePersona prose now newPersona E2 of
                  (Inl e, E3) \<Rightarrow> (Inl (Error (str ''Failed to duplicate persona'')), E3)
                | (Inr u, E3) \<Rightarrow> (Inr newPersona, E3))))"

section \<open>The remote completion client (\<open>AICoreService.callOpenAI\<close>)\<close>

record completionRequest =
  model :: jsstring
  messages :: "jv list"
  temperature' :: real
  max_tokens :: nat

text \<open>The body that \<open>callOpenAI\<close> posts. \<open>currentPersona\<close> is the profile that the
  field refers to, as it is when the body is built, and \<open>None\<close> when the field is
  \<open>null\<close>. The temperature is \<open>this.currentPersona?.temperature || 0.7\<close>.\<close>

definition requestBody :: "persona option \<Rightarrow> jv list \<Rightarrow> completionRequest" where
  "requestBody currentPersona msgs =
     \<lparr>model = str ''gpt-4-turbo'',
      messages = msgs,
      temperature' =
        (case currentPersona of
           None \<Rightarrow> 7 / 10
         | Some p \<Rightarrow> if temperature p \<noteq> 0 then temperature p else 7 / 10),
      max_tokens = 1000\<rparr>"

text \<open>\<open>v[0]\<close>\<close>

fun js_first :: "jv \<Rightarrow> js_error + jv" where
  "js_first JUndefined = Inl TypeError"
| "js_first JNull = Inl TypeError"
| "js_first (JArr xs) = Inr (case xs of [] \<Rightarrow> JUndefined | x # _ \<Rightarrow> x)"
| "js_first (JStr t) = Inr (case t of [] \<Rightarrow> JUndefined | c # _ \<Rightarrow> JStr [c])"
| "js_first (JObj ps) = Inr (case map_of ps (str ''0'') of None \<Rightarrow> JUndefined | Some v \<Rightarrow> v)"
| "js_first v = Inr JUndefined"

text \<open>\<open>response.data.choices[0].message.content\<close>\<close>

definition responseContent :: "jv \<Rightarrow> js_error + jv" where
  "responseContent responseData =
     (case get_prop responseData (str ''choices'') of
        Inl e \<Rightarrow> Inl e
      | Inr choices \<Rightarrow>
          (case js_first choices of
             Inl e \<Rightarrow> Inl e
           | Inr choice \<Rightarrow>
               (case get_prop choice (str ''message'') of
                  Inl e \<Rightarrow> Inl e
                | Inr msg \<Rightarrow> get_prop msg (str ''content''))))"

text \<open>
  \<open>post\<close> is \<open>axios.post\<close>: from the address, the body and the headers to
  \<open>response.data\<close>, or to the rejection of the request. \<open>apiKey\<close> is the constant
  \<open>API_KEY\<close> of the process.
\<close>

definition callOpenAI ::
  "(jsstring \<Rightarrow> completionRequest \<Rightarrow> (jsstring \<times> jsstring) list \<Rightarrow> js_error + jv)
     \<Rightarrow> jsstring \<Rightarrow> persona option \<Rightarrow> jv list \<Rightarrow> js_error + jv" where
  "callOpenAI post apiKey currentPersona msgs =
     (case post (str ''https://api.openai.com/v1/chat/completions'')
                (requestBody currentPersona msgs)
                [(str ''Authorization'', str ''Bearer '' @ apiKey),
                 (str ''Content-Type'', str ''application/json'')] of
        Inl e \<Rightarrow> Inl (Error (str ''Failed to get response from AI''))
      | Inr responseData \<Rightarrow>
          (case responseContent responseData of
             Inl e \<Rightarrow> Inl (Error (str ''Failed to get response from AI''))
           | Inr c \<Rightarrow> Inr c))"

section \<open>Sequences of persona operations\<close>

text \<open>
  What a caller of the engine can do, each step with the arguments of its call (and the
  reading of the clock where the method takes one): create a profile object, assign to
  properties of an object it holds (\<open>Write r f\<close> turns the content \<open>p\<close> of \<open>r\<close> into
  \<open>f p\<close>), and call a method of the engine. A run performs the steps in order.
\<close>

datatype personaOp =
    New persona
  | Write ref "persona \<Rightarrow> persona"
  | GetAll
  | Get jsstring
  | Save nat ref
  | Delete jsstring
  | Duplicate nat jsstring jsstring

fun applyOp :: "(string \<Rightarrow> persona) \<Rightarrow> personaOp \<Rightarrow> personalityEngine \<Rightarrow> personalityEngine" where
  "applyOp prose (New p) E = snd (new_object p E)"
| "applyOp prose (Write r f) E = (if is_object E r then assign r f E else E)"
| "applyOp prose GetAll E = snd (getAllPersonas prose E)"
| "applyOp prose (Get personaId) E = snd (getPersona prose personaId E)"
| "applyOp prose (Save now r) E = snd (savePersona prose now r E)"
| "applyOp prose (Delete personaId) E = snd (deletePersona prose personaId E)"
| "applyOp prose (Duplicate now basePersonaId newName) E =
     snd (duplicatePersona prose now basePersonaId newName E)"

definition run :: "(string \<Rightarrow> persona) \<Rightarrow> personaOp list \<Rightarrow> personalityEngine \<Rightarrow> personalityEngine" where
  "run prose ops E = foldl (\<lambda>E' op. applyOp prose op E') E ops"

definition builtInIds :: "jsstring list" where
  "builtInIds = map str [''strategist'', ''commander'', ''architect'', ''catalyst'', ''tactical'']"

text \<open>The objects that the \<open>Map\<close> holds. The store is sound when each of them is an
  object of the heap; the engine only ever stores objects, so that it always is.\<close>

definition held :: "personalityEngine \<Rightarrow> ref set" where
  "held E = snd ` set (personas E)"

definition sound :: "personalityEngine \<Rightarrow> bool" where
  "sound E \<longleftrightarrow> (\<forall>r \<in> held E. is_object E r)"

text \<open>A persona is present as a built-in one when its identifier has an entry and the
  object of the entry is not marked custom.\<close>

definition present :: "personalityEngine \<Rightarrow> jsstring \<Rightarrow> bool" where
  "present E b =
     (case map_of (personas E) b of
        None \<Rightarrow> False
      | Some r \<Rightarrow> is_object E r \<and> \<not> isCustom (object E r))"

definition builtInsPresent :: "personalityEngine \<Rightarrow> bool" where
  "builtInsPresent E \<longleftrightarrow> (\<forall>b \<in> set builtInIds. present E b)"

text \<open>Every entry is stored under the identifier of its object, as \<open>set(persona.id,
  persona)\<close> stores it, and no identifier is empty.\<close>

definition keyed :: "personalityEngine \<Rightarrow> bool" where
  "keyed E \<longleftrightarrow>
     (\<forall>(k, r) \<in> set (personas E). k \<noteq> [] \<and> is_object E r \<and> persona_id (object E r) = k)"

text \<open>
  The steps that the store admits, in the state in which they are made: the object passed
  to \<open>savePersona\<close> does not carry a built-in identifier, and an assignment to an object
  that the \<open>Map\<close> holds changes neither its identifier nor its custom mark. A run is
  admissible when the store admits each of its steps, in the state that the steps before it
  lead to.
\<close>

fun admits :: "personalityEngine \<Rightarrow> personaOp \<Rightarrow> bool" where
  "admits E (Save now r) = (is_object E r \<longrightarrow> persona_id (object E r) \<notin> set builtInIds)"
| "admits E (Write r f) =
     (r \<in> held E \<longrightarrow>
        persona_id (f (object E r)) = persona_id (object E r)
        \<and> isCustom (f (object E r)) = isCustom (object E r))"
| "admits E op = True"

fun admissible :: "(string \<Rightarrow> persona) \<Rightarrow> personaOp list \<Rightarrow> personalityEngine \<Rightarrow> bool" where
  "admissible prose [] E = True"
| "admissible prose (op # ops) E \<longleftrightarrow> admits E op \<and> admissible prose ops (applyOp prose op E)"

section \<open>Responses made of plain text and tags\<close>

text \<open>
  A response written as a sequence of pieces: plain text, and tags
  \<open><system>body</system>\<close>. It is unbroken when the code unit \<open><\<close> occurs in it only
  as the first one of a marker, that is, in no plain text and in no body.
\<close>

datatype piece = Plain jsstring | Tagged jsstring

fun render :: "piece list \<Rightarrow> jsstring" where
  "render [] = []"
| "render (Plain t # ps) = t @ render ps"
| "render (Tagged b # ps) = tag_open @ b @ tag_close @ render ps"

definition unbroken :: "piece list \<Rightarrow> bool" where
  "unbroken ps \<longleftrightarrow>
     (\<forall>p \<in> set ps. 0x3C \<notin> set (case p of Plain t \<Rightarrow> t | Tagged b \<Rightarrow> b))"

text \<open>The intents of the tags whose body \<open>parse_intent\<close> accepts, and the pieces that
  are left when these tags are taken out.\<close>

fun recognised :: "piece list \<Rightarrow> systemIntent list" where
  "recognised [] = []"
| "recognised (Plain t # ps) = recognised ps"
| "recognised (Tagged b # ps) =
     (case parse_intent b of Inl e \<Rightarrow> recognised ps | Inr i \<Rightarrow> i # recognised ps)"

fun leftover :: "piece list \<Rightarrow> piece list" where
  "leftover [] = []"
| "leftover (Plain t # ps) = Plain t # leftover ps"
| "leftover (Tagged b # ps) =
     (case parse_intent b of Inl e \<Rightarrow> Tagged b # leftover ps | Inr i \<Rightarrow> leftover ps)"

section \<open>Data for the examples\<close>

text \<open>The case tables restricted to ASCII, a storage that rejects one call or every call
  from one on, an empty storage that rejects no call, an engine that has created no object
  and loaded no persona, a table of built-in prose that is blank, and a message with a
  fixed time stamp.\<close>

definition ascii_tables :: unicode where
  "ascii_tables =
     \<lparr>toLowerCase = map (\<lambda>c. if 0x41 \<le> c \<and> c \<le> 0x5A then c + 32 else c),
      canonicalize = (\<lambda>c. if 0x61 \<le> c \<and> c \<le> 0x7A then c - 32 else c)\<rparr>"

definition rejecting_only :: "nat \<Rightarrow> nat \<Rightarrow> bool" where
  "rejecting_only k n \<longleftrightarrow> n = k"

definition rejecting_from :: "nat \<Rightarrow> nat \<Rightarrow> bool" where
  "rejecting_from k n \<longleftrightarrow> k \<le> n"

definition empty_storage :: "'v asyncStorage" where
  "empty_storage = \<lparr>entries = Map.empty, rejects = (\<lambda>n. False), calls = 0\<rparr>"

definition fresh_engine :: personalityEngine where
  "fresh_engine = \<lparr>heap = [], personas = [], storage = empty_storage\<rparr>"

text \<open>The identifiers of the profiles that \<open>getAllPersonas\<close> returns, in order.\<close>

definition listing :: "(string \<Rightarrow> persona) \<Rightarrow> personalityEngine \<Rightarrow> jsstring list" where
  "listing prose E =
     map (\<lambda>r. persona_id (object (snd (getAllPersonas prose E)) r))
       (fst (getAllPersonas prose E))"

definition blank_prose :: "string \<Rightarrow> persona" where
  "blank_prose ident =
     \<lparr>persona_id = [], name = str ident, description = [], icon = [],
      communicationStyle = [], values' = [], approach = [], avoidTopics = [],
      temperature = 0, welcomeMessage = [], customInstructions = None, isCustom = False\<rparr>"

definition text_message :: "string \<Rightarrow> messageRole \<Rightarrow> string \<Rightarrow> message" where
  "text_message ident r body =
     \<lparr>message_id = str ident, role = r, content = str body,
      timestamp = str ''2025-01-01T00:00:00.000Z'', metadata = None\<rparr>"

section \<open>The fuel of \<open>JSON.parse\<close>\<close>

text \<open>Every piece of the grammar consumes at least one code unit.\<close>

lemma parse_string_shorter: "parse_string s = Some (t, r) \<Longrightarrow> length r < length s"
proof (induction s arbitrary: t rule: parse_string.induct)
  case 1
  then show ?case by simp
next
  case (2 c cs)
  show ?case
  proof (cases "c = 0x22")
    case True
    with "2.prems" show ?thesis by simp
  next
    case nq: False
    show ?thesis
    proof (cases "c = 0x5C")
      case True
      show ?thesis
      proof (cases cs)
        case Nil
        with "2.prems" nq True show ?thesis by simp
      next
        case (Cons e r')
        show ?thesis
        proof (cases "e = 0x75")
          case u: True
          with "2.prems" nq True Cons obtain u' t' where
            "hex4 r' = Some u'" "parse_string (drop 4 r') = Some (t', r)"
            by (auto split: option.splits)
          with "2.IH"(1)[OF nq True Cons u, of u' t'] have "length r < length (drop 4 r')" by simp
          with Cons show ?thesis by simp
        next
          case nu: False
          with "2.prems" nq True Cons obtain u' t' where
            "unescape e = Some u'" "parse_string r' = Some (t', r)"
            by (auto split: option.splits)
          with "2.IH"(2)[OF nq True Cons nu, of u' t'] Cons show ?thesis by simp
        qed
      qed
    next
      case False
      with "2.prems" nq obtain t' where "\<not> c < 0x20" "parse_string cs = Some (t', r)"
        by (auto split: option.splits if_splits)
      with "2.IH"(3)[OF nq False, of t'] show ?thesis by simp
    qed
  qed
qed

lemma parse_exponent_shorter: "parse_exponent s = Some (e, r) \<Longrightarrow> length r \<le> length s"
proof (cases s)
  case Nil
  assume "parse_exponent s = Some (e, r)"
  with Nil show ?thesis by (simp add: parse_exponent_def)
next
  case (Cons c r')
  assume a: "parse_exponent s = Some (e, r)"
  show ?thesis
  proof (cases "c = 0x65 \<or> c = 0x45")
    case False
    with a Cons show ?thesis by (auto simp: parse_exponent_def)
  next
    case True
    let ?r1 = "if r' \<noteq> [] \<and> (hd r' = 0x2D \<or> hd r' = 0x2B) then tl r' else r'"
    from a Cons True have "r = dropWhile is_digit ?r1"
      by (auto simp: parse_exponent_def Let_def split: if_splits)
    moreover have "length (dropWhile is_digit ?r1) \<le> length ?r1" by (rule length_dropWhile_le)
    moreover have "length ?r1 \<le> length r'" by simp
    ultimately show ?thesis using Cons by simp
  qed
qed

lemma parse_number_shorter: "parse_number s = Some (v, r) \<Longrightarrow> length r < length s"
proof -
  assume a: "parse_number s = Some (v, r)"
  define s1 where "s1 = (if s \<noteq> [] \<and> hd s = 0x2D then tl s else s)"
  define s2 where "s2 = dropWhile is_digit s1"
  define s3 where "s3 = (if s2 \<noteq> [] \<and> hd s2 = 0x2E then dropWhile is_digit (tl s2) else s2)"
  from a have ip: "takeWhile is_digit s1 \<noteq> []"
    by (auto simp: parse_number_def Let_def s1_def split: if_splits)
  from a obtain ex where "parse_exponent s3 = Some (ex, r)"
    by (auto simp: parse_number_def Let_def s1_def s2_def s3_def split: if_splits option.splits)
  then have 1: "length r \<le> length s3" by (rule parse_exponent_shorter)
  have "length (dropWhile is_digit (tl s2)) \<le> length (tl s2)" by (rule length_dropWhile_le)
  then have 2: "length s3 \<le> length s2" unfolding s3_def by (simp; linarith)
  have "length (takeWhile is_digit s1) + length s2 = length s1"
    unfolding s2_def by (metis length_append takeWhile_dropWhile_id)
  with ip have 3: "length s2 < length s1" by (cases "takeWhile is_digit s1") auto
  have 4: "length s1 \<le> length s" unfolding s1_def by simp
  from 1 2 3 4 show ?thesis by linarith
qed

lemma literal_shorter: "literal w s = Some r \<Longrightarrow> w \<noteq> [] \<Longrightarrow> length r < length s"
proof -
  assume a: "literal w s = Some r" and w: "w \<noteq> []"
  then have t: "take (length w) s = w" and r: "r = drop (length w) s"
    by (auto simp: literal_def split: if_splits)
  from t have "length (take (length w) s) = length w" by (simp only:)
  then have "length w \<le> length s" by simp
  with r w show ?thesis by (cases w) auto
qed

lemma expect_shorter: "expect c s = Some r \<Longrightarrow> s = c # r"
  by (auto simp: expect_def split: list.splits if_splits)

text \<open>
  A parse that succeeds with some fuel consumes at least one code unit, and succeeds with
  the same result on any fuel that is at least the number of code units it consumes. The
  three lemmas are the steps of the induction on the fuel.
\<close>

lemma dropWhile_Cons_length: "dropWhile P s = c # cs \<Longrightarrow> length cs < length s"
  using length_dropWhile_le[of P s] by simp

lemma value_step:
  assumes E: "\<And>acc s v r. parse_elements n acc s = Some (v, r) \<Longrightarrow>
                length r < length s
                \<and> (\<forall>m. length s - length r \<le> m \<longrightarrow> parse_elements m acc s = Some (v, r))"
    and M: "\<And>acc s v r. parse_members n acc s = Some (v, r) \<Longrightarrow>
                length r < length s
                \<and> (\<forall>m. length s - length r \<le> m \<longrightarrow> parse_members m acc s = Some (v, r))"
    and res: "parse_value (Suc n) s = Some (v, r)"
  shows "length r < length s
         \<and> (\<forall>m. length s - length r \<le> m \<longrightarrow> parse_value m s = Some (v, r))"
proof (cases "dropWhile json_ws s")
  case Nil
  with res show ?thesis by simp
next
  case (Cons c cs)
  have cs: "length cs < length s" using Cons by (rule dropWhile_Cons_length)
  consider (obj) "c = 0x7B" "expect 0x7D (dropWhile json_ws cs) = None"
    | (arr) "c \<noteq> 0x7B" "c = 0x5B" "expect 0x5D (dropWhile json_ws cs) = None"
    | (flat) "\<not> (c = 0x7B \<and> expect 0x7D (dropWhile json_ws cs) = None)"
             "\<not> (c \<noteq> 0x7B \<and> c = 0x5B \<and> expect 0x5D (dropWhile json_ws cs) = None)"
    by argo
  then show ?thesis
  proof cases
    case obj
    then have eq: "parse_value (Suc k) s = parse_members k [] cs" for k
      by (simp add: Cons)
    with res have "parse_members n [] cs = Some (v, r)" by (simp only:)
    from M[OF this] have 1: "length r < length cs"
      and 2: "\<And>m. length cs - length r \<le> m \<Longrightarrow> parse_members m [] cs = Some (v, r)"
      by auto
    show ?thesis
    proof (intro conjI allI impI)
      show "length r < length s" using 1 cs by simp
      fix m assume m: "length s - length r \<le> m"
      with 1 cs obtain k where k: "m = Suc k" by (cases m) auto
      with m 1 cs have "length cs - length r \<le> k" by simp
      from 2[OF this] show "parse_value m s = Some (v, r)" unfolding k eq .
    qed
  next
    case arr
    then have eq: "parse_value (Suc k) s = parse_elements k [] cs" for k
      by (simp add: Cons)
    with res have "parse_elements n [] cs = Some (v, r)" by (simp only:)
    from E[OF this] have 1: "length r < length cs"
      and 2: "\<And>m. length cs - length r \<le> m \<Longrightarrow> parse_elements m [] cs = Some (v, r)"
      by auto
    show ?thesis
    proof (intro conjI allI impI)
      show "length r < length s" using 1 cs by simp
      fix m assume m: "length s - length r \<le> m"
      with 1 cs obtain k where k: "m = Suc k" by (cases m) auto
      with m 1 cs have "length cs - length r \<le> k" by simp
      from 2[OF this] show "parse_value m s = Some (v, r)" unfolding k eq .
    qed
  next
    case flat
    then have eq: "parse_value (Suc k) s = parse_value (Suc n) s" for k
      by (auto simp: Cons split: option.splits)
    have "length r \<le> length cs"
      using res flat
      by (auto simp: Cons str_def split: option.splits if_splits
          dest!: expect_shorter parse_string_shorter literal_shorter parse_number_shorter
          dropWhile_Cons_length)
    with cs have 1: "length r < length s" by simp
    show ?thesis
    proof (intro conjI allI impI)
      show "length r < length s" by (rule 1)
      fix m assume m: "length s - length r \<le> m"
      with 1 obtain k where k: "m = Suc k" by (cases m) auto
      from eq[of k] res show "parse_value m s = Some (v, r)" unfolding k by (simp only:)
    qed
  qed
qed


lemma elements_step:
  assumes V: "\<And>s v r. parse_value n s = Some (v, r) \<Longrightarrow>
                length r < length s
                \<and> (\<forall>m. length s - length r \<le> m \<longrightarrow> parse_value m s = Some (v, r))"
    and E: "\<And>acc s v r. parse_elements n acc s = Some (v, r) \<Longrightarrow>
                length r < length s
                \<and> (\<forall>m. length s - length r \<le> m \<longrightarrow> parse_elements m acc s = Some (v, r))"
    and res: "parse_elements (Suc n) acc s = Some (v, r)"
  shows "length r < length s
         \<and> (\<forall>m. length s - length r \<le> m \<longrightarrow> parse_elements m acc s = Some (v, r))"
proof -
  from res obtain v1 r1 c r' where
    v1: "parse_value n s = Some (v1, r1)" and dw: "dropWhile json_ws r1 = c # r'"
    and rest: "if c = 0x2C then parse_elements n (acc @ [v1]) r' = Some (v, r)
               else c = 0x5D \<and> v = JArr (acc @ [v1]) \<and> r = r'"
    by (auto split: option.splits list.splits if_splits)
  from V[OF v1] have 1: "length r1 < length s"
    and 2: "\<And>m. length s - length r1 \<le> m \<Longrightarrow> parse_value m s = Some (v1, r1)"
    by auto
  have 3: "length r' < length r1" using dw by (rule dropWhile_Cons_length)
  show ?thesis
  proof (cases "c = 0x2C")
    case True
    with rest have "parse_elements n (acc @ [v1]) r' = Some (v, r)" by simp
    from E[OF this] have 4: "length r < length r'"
      and 5: "\<And>m. length r' - length r \<le> m \<Longrightarrow> parse_elements m (acc @ [v1]) r' = Some (v, r)"
      by auto
    show ?thesis
    proof (intro conjI allI impI)
      show "length r < length s" using 1 3 4 by simp
      fix m assume m: "length s - length r \<le> m"
      with 1 3 4 obtain k where k: "m = Suc k" by (cases m) auto
      with m 1 3 4 have "length s - length r1 \<le> k" "length r' - length r \<le> k" by simp_all
      from 2[OF this(1)] 5[OF this(2)] dw True
      show "parse_elements m acc s = Some (v, r)" by (simp add: k)
    qed
  next
    case False
    with rest have fin: "c = 0x5D" "v = JArr (acc @ [v1])" "r = r'" by simp_all
    show ?thesis
    proof (intro conjI allI impI)
      show "length r < length s" using 1 3 fin by simp
      fix m assume m: "length s - length r \<le> m"
      with 1 3 fin obtain k where k: "m = Suc k" by (cases m) auto
      with m 1 3 fin have "length s - length r1 \<le> k" by simp
      from 2[OF this] dw fin
      show "parse_elements m acc s = Some (v, r)" by (simp add: k)
    qed
  qed
qed

lemma members_step:
  assumes V: "\<And>s v r. parse_value n s = Some (v, r) \<Longrightarrow>
                length r < length s
                \<and> (\<forall>m. length s - length r \<le> m \<longrightarrow> parse_value m s = Some (v, r))"
    and M: "\<And>acc s v r. parse_members n acc s = Some (v, r) \<Longrightarrow>
                length r < length s
                \<and> (\<forall>m. length s - length r \<le> m \<longrightarrow> parse_members m acc s = Some (v, r))"
    and res: "parse_members (Suc n) acc s = Some (v, r)"
  shows "length r < length s
         \<and> (\<forall>m. length s - length r \<le> m \<longrightarrow> parse_members m acc s = Some (v, r))"
proof -
  from res obtain q k0 r1 r2 v1 r3 c r4 where
    q: "expect 0x22 (dropWhile json_ws s) = Some q"
    and key: "parse_string q = Some (k0, r1)"
    and colon: "expect 0x3A (dropWhile json_ws r1) = Some r2"
    and v1: "parse_value n r2 = Some (v1, r3)"
    and dw: "dropWhile json_ws r3 = c # r4"
    and rest: "if c = 0x2C then parse_members n (obj_set k0 v1 acc) r4 = Some (v, r)
               else c = 0x7D \<and> v = JObj (obj_set k0 v1 acc) \<and> r = r4"
    by (auto split: option.splits list.splits if_splits)
  have a: "length q < length s"
    using expect_shorter[OF q] dropWhile_Cons_length[of json_ws s "0x22" q] by simp
  have b: "length r1 < length q" using key by (rule parse_string_shorter)
  have c: "length r2 < length r1"
    using expect_shorter[OF colon] dropWhile_Cons_length[of json_ws r1 "0x3A" r2] by simp
  from V[OF v1] have d: "length r3 < length r2"
    and 2: "\<And>m. length r2 - length r3 \<le> m \<Longrightarrow> parse_value m r2 = Some (v1, r3)"
    by auto
  have e: "length r4 < length r3" using dw by (rule dropWhile_Cons_length)
  show ?thesis
  proof (cases "c = 0x2C")
    case True
    with rest have "parse_members n (obj_set k0 v1 acc) r4 = Some (v, r)" by simp
    from M[OF this] have f: "length r < length r4"
      and 5: "\<And>m. length r4 - length r \<le> m \<Longrightarrow>
                  parse_members m (obj_set k0 v1 acc) r4 = Some (v, r)"
      by auto
    show ?thesis
    proof (intro conjI allI impI)
      show "length r < length s" using a b c d e f by simp
      fix m assume m: "length s - length r \<le> m"
      with a b c d e f obtain k where k: "m = Suc k" by (cases m) auto
      with m a b c d e f have "length r2 - length r3 \<le> k" "length r4 - length r \<le> k"
        by simp_all
      from 2[OF this(1)] 5[OF this(2)] q key colon dw True
      show "parse_members m acc s = Some (v, r)" by (simp add: k)
    qed
  next
    case False
    with rest have fin: "c = 0x7D" "v = JObj (obj_set k0 v1 acc)" "r = r4" by simp_all
    show ?thesis
    proof (intro conjI allI impI)
      show "length r < length s" using a b c d e fin by simp
      fix m assume m: "length s - length r \<le> m"
      with a b c d e fin obtain k where k: "m = Suc k" by (cases m) auto
      with m a b c d e fin have "length r2 - length r3 \<le> k" by simp
      from 2[OF this] q key colon dw fin
      show "parse_members m acc s = Some (v, r)" by (simp add: k)
    qed
  qed
qed

lemma fuel_enough:
  "(\<forall>s v r. parse_value n s = Some (v, r) \<longrightarrow>
       length r < length s
       \<and> (\<forall>m. length s - length r \<le> m \<longrightarrow> parse_value m s = Some (v, r)))
   \<and> (\<forall>acc s v r. parse_elements n acc s = Some (v, r) \<longrightarrow>
       length r < length s
       \<and> (\<forall>m. length s - length r \<le> m \<longrightarrow> parse_elements m acc s = Some (v, r)))
   \<and> (\<forall>acc s v r. parse_members n acc s = Some (v, r) \<longrightarrow>
       length r < length s
       \<and> (\<forall>m. length s - length r \<le> m \<longrightarrow> parse_members m acc s = Some (v, r)))"
proof (induction n)
  case 0
  show ?case by simp
next
  case (Suc n)
  then have V: "\<And>s v r. parse_value n s = Some (v, r) \<Longrightarrow>
                length r < length s
                \<and> (\<forall>m. length s - length r \<le> m \<longrightarrow> parse_value m s = Some (v, r))"
    and E: "\<And>acc s v r. parse_elements n acc s = Some (v, r) \<Longrightarrow>
                length r < length s
                \<and> (\<forall>m. length s - length r \<le> m \<longrightarrow> parse_elements m acc s = Some (v, r))"
    and M: "\<And>acc s v r. parse_members n acc s = Some (v, r) \<Longrightarrow>
                length r < length s
                \<and> (\<forall>m. length s - length r \<le> m \<longrightarrow> parse_members m acc s = Some (v, r))"
    by blast+
  show ?case
  proof (intro conjI allI impI)
    fix s v r assume "parse_value (Suc n) s = Some (v, r)"
    from value_step[OF E M this]
    show "length r < length s"
      and "\<And>m. length s - length r \<le> m \<Longrightarrow> parse_value m s = Some (v, r)" by blast+
  next
    fix acc s v r assume "parse_elements (Suc n) acc s = Some (v, r)"
    from elements_step[OF V E this]
    show "length r < length s"
      and "\<And>m. length s - length r \<le> m \<Longrightarrow> parse_elements m acc s = Some (v, r)" by blast+
  next
    fix acc s v r assume "parse_members (Suc n) acc s = Some (v, r)"
    from members_step[OF V M this]
    show "length r < length s"
      and "\<And>m. length s - length r \<le> m \<Longrightarrow> parse_members m acc s = Some (v, r)" by blast+
  qed
qed

text \<open>So the fuel that \<open>JSON_parse\<close> supplies is enough for every text: what parses
  with some fuel parses with this one, and \<open>JSON_parse\<close> accepts exactly the texts that
  parse with some fuel and leave only white space.\<close>

lemma JSON_parse_fuel:
  assumes "parse_value n s = Some (v, r)"
  shows "parse_value (2 * length s + 2) s = Some (v, r)"
proof -
  from fuel_enough[of n] assms
  have "\<forall>m. length s - length r \<le> m \<longrightarrow> parse_value m s = Some (v, r)" by blast
  moreover have "length s - length r \<le> 2 * length s + 2" by simp
  ultimately show ?thesis by blast
qed

lemma JSON_parse_any_fuel:
  "JSON_parse s = Inr v \<longleftrightarrow> (\<exists>n r. parse_value n s = Some (v, r) \<and> dropWhile json_ws r = [])"
proof
  define n0 where "n0 = 2 * length s + 2"
  assume "JSON_parse s = Inr v"
  then have "\<exists>r. parse_value n0 s = Some (v, r) \<and> dropWhile json_ws r = []"
    unfolding JSON_parse_def n0_def[symmetric]
    by (cases "parse_value n0 s") (auto split: if_splits)
  then show "\<exists>n r. parse_value n s = Some (v, r) \<and> dropWhile json_ws r = []" by blast
next
  assume "\<exists>n r. parse_value n s = Some (v, r) \<and> dropWhile json_ws r = []"
  then obtain n r where r: "parse_value n s = Some (v, r)" "dropWhile json_ws r = []" by blast
  from JSON_parse_fuel[OF r(1)]
  have "JSON_parse s = (if dropWhile json_ws r = [] then Inr v else Inl SyntaxError)"
    unfolding JSON_parse_def by (simp only: option.case prod.case)
  with r(2) show "JSON_parse s = Inr v" by simp
qed

section \<open>Properties of intent extraction\<close>

lemma split_first_sound:
  "split_first pat s = Some (a, b) \<Longrightarrow> s = a @ pat @ b"
proof (induction s arbitrary: a)
  case Nil
  then show ?case by (simp split: if_splits)
next
  case (Cons c cs)
  show ?case
  proof (cases "take (length pat) (c # cs) = pat")
    case True
    with Cons.prems have "a = []" "b = drop (length pat) (c # cs)" by auto
    with True show ?thesis by (metis append_Nil append_take_drop_id)
  next
    case False
    with Cons.prems obtain a' where "split_first pat cs = Some (a', b)" "a = c # a'"
      by (auto split: option.splits)
    with Cons.IH[of a'] show ?thesis by simp
  qed
qed

lemma marker_has_angle: "s = a @ tag_open @ r \<Longrightarrow> 0x3C \<in> set s"
  by (simp add: tag_open_def str_def)

text \<open>
  C1. The example scenario of the specification. \<open>split(':', 2)\<close> cuts the intent text
  at every colon and keeps two pieces, so the payload handed to \<open>JSON.parse\<close> is the
  fragment up to the first colon inside the object. The fragment does not parse, the
  \<open>catch\<close> skips the occurrence, and the response comes back with no intent and with
  the tag still in its text.
\<close>

theorem example_scenario_yields_no_intent:
  \<open>parseResponse (str ''Here is a plan. <system>create_task: {"title": "Write report", "priority": "urgent"}</system> Good luck!'')
     = \<lparr>text' = str ''Here is a plan. <system>create_task: {"title": "Write report", "priority": "urgent"}</system> Good luck!'',
        intents = []\<rparr>\<close>
  by code_simp

text \<open>The pieces behind it: what \<open>split\<close> leaves of the payload, that the fragment is
  no JSON text whatever the fuel, and that the whole payload would have parsed.\<close>

lemma example_payload_is_cut:
  \<open>take 2 (split_on 0x3A (str ''create_task: {"title": "Write report", "priority": "urgent"}''))
     = [str ''create_task'', str '' {"title"'']\<close>
  by code_simp

lemma payload_fragment_never_parses:
  \<open>parse_value n (str ''{"title"'') = None\<close>
proof (cases n)
  case 0
  then show ?thesis by simp
next
  case (Suc m)
  then show ?thesis
    by (cases m) (simp_all add: str_def json_ws_def expect_def)
qed

lemma whole_payload_parses:
  \<open>JSON_parse (str ''{"title": "Write report", "priority": "urgent"}'')
     = Inr (JObj [(str ''title'', S ''Write report''), (str ''priority'', S ''urgent'')])\<close>
  by code_simp

lemma urgent_priority_becomes_medium:
  "interpretIntent clk \<lparr>action = str ''create_task'',
       data = JObj [(str ''title'', S ''Write report''), (str ''priority'', S ''urgent'')]\<rparr>
     = Inr (Some \<lparr>type' = CREATE_TASK,
          payload = JObj
            [(str ''title'', S ''Write report''),
             (str ''description'', JStr []),
             (str ''dueDate'', JNull),
             (str ''priority'', S ''medium''),
             (str ''category'', JNull),
             (str ''tags'', JArr []),
             (str ''status'', S ''pending'')]\<rparr>)"
  by (simp add: interpretIntent_def handleCreateTask_def require_def field_def js_or_def
      S_def str_def)

text \<open>
  C10. A response with no occurrence of the marker pair comes back trimmed, whatever
  white space it starts or ends with, and with no intent.
\<close>

theorem unmarked_response_is_trimmed:
  assumes "\<not> (\<exists>a b c. response = a @ tag_open @ b @ tag_close @ c)"
  shows "parseResponse response = \<lparr>text' = trim response, intents = []\<rparr>"
proof -
  have "systemIntentRegex_exec response = None"
  proof (rule ccontr)
    assume "systemIntentRegex_exec response \<noteq> None"
    then obtain before r1 inner r2 where
      "split_first tag_open response = Some (before, r1)"
      "split_first tag_close r1 = Some (inner, r2)"
      by (auto simp: systemIntentRegex_exec_def split: option.splits)
    then have "response = before @ tag_open @ inner @ tag_close @ r2"
      by (auto dest!: split_first_sound)
    with assms show False by blast
  qed
  then show ?thesis by (simp add: parseResponse_def parse_loop.simps)
qed

theorem unmarked_response_is_trimmed_witness:
  "parseResponse (str ''  Keep going! '') = \<lparr>text' = str ''Keep going!'', intents = []\<rparr>"
proof -
  have "\<not> (\<exists>a b c. str ''  Keep going! '' = a @ tag_open @ b @ tag_close @ c)"
  proof
    assume "\<exists>a b c. str ''  Keep going! '' = a @ tag_open @ b @ tag_close @ c"
    then have "0x3C \<in> set (str ''  Keep going! '')"
      using marker_has_angle by blast
    then show False by (simp add: str_def)
  qed
  from unmarked_response_is_trimmed[OF this]
  show ?thesis by (simp add: trim_def is_ws_def ws_units_def str_def)
qed

text \<open>
  C6. One pass does not exhaust the intents of every text: taking a recognised tag out
  can join the text around it into a new tag, which the second pass then finds.
\<close>

theorem second_pass_finds_intent_counterexample:
  "parseResponse (str ''<sys<system>a</system>tem>b</system>'')
     = \<lparr>text' = str ''<system>b</system>'', intents = [\<lparr>action = str ''a'', data = JObj []\<rparr>]\<rparr>
   \<and> intents (parseResponse (text' (parseResponse (str ''<sys<system>a</system>tem>b</system>''))))
     = [\<lparr>action = str ''b'', data = JObj []\<rparr>]"
  by code_simp

subsection \<open>Unbroken responses\<close>

lemma tag_open_Cons: "tag_open = 0x3C # str ''system>''"
  by (simp add: tag_open_def str_def)

lemma tag_close_Cons: "tag_close = 0x3C # str ''/system>''"
  by (simp add: tag_close_def str_def)

lemma inner_marker_plain: "0x3C \<notin> set (str ''system>'')" "0x3C \<notin> set (str ''/system>'')"
  by (simp_all add: str_def)

lemma split_first_prefix: "split_first pat (pat @ r) = Some ([], r)"
proof (cases "pat @ r")
  case Nil
  then show ?thesis by simp
next
  case (Cons c cs)
  show ?thesis
    apply (subst Cons)
    apply (subst split_first.simps(2))
    apply (simp add: Cons[symmetric])
    done
qed

lemma split_first_step:
  "take (length pat) (x # xs) \<noteq> pat \<Longrightarrow>
   split_first pat (x # xs) = map_option (\<lambda>(a, r). (x # a, r)) (split_first pat xs)"
  by (simp split: option.splits)

lemma split_first_skip:
  "c \<notin> set p \<Longrightarrow>
   split_first (c # pt) (p @ s) = map_option (\<lambda>(a, r). (p @ a, r)) (split_first (c # pt) s)"
proof (induction p)
  case Nil
  show ?case by (cases "split_first (c # pt) s") auto
next
  case (Cons x p)
  then have "x \<noteq> c" "c \<notin> set p" by auto
  then have "take (length (c # pt)) (x # p @ s) \<noteq> c # pt" by simp
  from split_first_step[OF this] Cons.IH[OF \<open>c \<notin> set p\<close>]
  show ?case by (cases "split_first (c # pt) s") auto
qed

lemma split_first_absent: "c \<notin> set s \<Longrightarrow> split_first (c # pt) s = None"
  by (induction s) auto

lemma exec_nil: "systemIntentRegex_exec [] = None"
  by (simp add: systemIntentRegex_exec_def tag_open_Cons)

lemma exec_plain: "0x3C \<notin> set t \<Longrightarrow> systemIntentRegex_exec (t @ s) = systemIntentRegex_exec s"
  unfolding systemIntentRegex_exec_def tag_open_Cons
  by (simp add: split_first_skip split: option.splits)

lemma exec_tagged:
  assumes "0x3C \<notin> set b"
  shows "systemIntentRegex_exec (tag_open @ b @ tag_close @ s)
           = Some (tag_open @ b @ tag_close, b, s)"
proof -
  have 1: "split_first tag_open (tag_open @ b @ tag_close @ s) = Some ([], b @ tag_close @ s)"
    by (rule split_first_prefix)
  have "split_first tag_close (b @ tag_close @ s)
          = map_option (\<lambda>(a, r). (b @ a, r)) (split_first tag_close (tag_close @ s))"
    using split_first_skip[OF assms] by (simp add: tag_close_Cons)
  then have 2: "split_first tag_close (b @ tag_close @ s) = Some (b, s)"
    by (simp add: split_first_prefix)
  show ?thesis by (simp add: systemIntentRegex_exec_def 1 2)
qed

lemma loop_nil: "parse_loop [] f c = (f, c)"
  by (simp add: parse_loop.simps exec_nil)

lemma loop_plain: "0x3C \<notin> set t \<Longrightarrow> parse_loop (t @ s) f c = parse_loop s f c"
  by (simp add: parse_loop.simps[of "t @ s"] parse_loop.simps[of s] exec_plain)

lemma loop_tagged:
  "0x3C \<notin> set b \<Longrightarrow>
   parse_loop (tag_open @ b @ tag_close @ s) f c =
     (case parse_intent b of
        Inl e \<Rightarrow> parse_loop s f c
      | Inr i \<Rightarrow> parse_loop s (f @ [i]) (replace_first (tag_open @ b @ tag_close) c))"
  by (simp add: parse_loop.simps[of "tag_open @ b @ tag_close @ s"] exec_tagged)

lemma same_up_to:
  assumes "x @ c # u = y @ c # v" "c \<notin> set x" "c \<notin> set y"
  shows "x = y"
proof -
  have tw: "takeWhile (\<lambda>z. z \<noteq> c) (w @ c # r) = w" if "c \<notin> set w" for w r
    using that by (induction w) auto
  from tw[OF assms(2), of u] tw[OF assms(3), of v] assms(1) show ?thesis by simp
qed

lemma replace_nil: "replace_first (tag_open @ b @ tag_close) [] = []"
  by (simp add: replace_first_def tag_open_Cons)

lemma replace_plain:
  "0x3C \<notin> set t \<Longrightarrow>
   replace_first (tag_open @ b @ tag_close) (t @ s) = t @ replace_first (tag_open @ b @ tag_close) s"
  unfolding replace_first_def tag_open_Cons
  by (simp add: split_first_skip split: option.splits)

lemma replace_same:
  "replace_first (tag_open @ b @ tag_close) (tag_open @ b @ tag_close @ s) = s"
  using split_first_prefix[of "tag_open @ b @ tag_close" s]
  by (simp add: replace_first_def)

lemma walk_tag:
  assumes "0x3C \<notin> set b" "0x3C \<notin> set b'" "b \<noteq> b'"
  shows "split_first (tag_open @ b @ tag_close) (tag_open @ b' @ tag_close @ s)
       = map_option (\<lambda>(a, r). (tag_open @ b' @ tag_close @ a, r))
           (split_first (tag_open @ b @ tag_close) s)"
proof -
  let ?P = "str ''system>'' @ b @ tag_close"
  let ?pat = "0x3C # ?P"
  let ?R = "str ''system>'' @ b' @ tag_close @ s"
  have pat: "tag_open @ b @ tag_close = ?pat" by (simp add: tag_open_Cons)
  have 1: "take (length ?pat) (0x3C # ?R) \<noteq> ?pat"
  proof
    assume "take (length ?pat) (0x3C # ?R) = ?pat"
    then have "?pat @ drop (length ?pat) (0x3C # ?R) = 0x3C # ?R"
      by (metis append_take_drop_id)
    then have "b @ tag_close @ drop (length ?pat) (0x3C # ?R) = b' @ tag_close @ s"
      by simp
    then have "b = b'"
      using same_up_to[of b "0x3C" _ b' _] assms(1,2) by (simp add: tag_close_Cons)
    with assms(3) show False by simp
  qed
  have 3: "take (length ?pat) (0x3C # str ''/system>'' @ s) \<noteq> ?pat"
    by (simp add: str_def)
  have s1: "split_first ?pat (0x3C # ?R) = map_option (\<lambda>(a, r). (0x3C # a, r)) (split_first ?pat ?R)"
    by (rule split_first_step[OF 1])
  have s2: "split_first ?pat ?R
        = map_option (\<lambda>(a, r). ((str ''system>'' @ b') @ a, r)) (split_first ?pat (tag_close @ s))"
    using split_first_skip[of "0x3C" "str ''system>'' @ b'" ?P "tag_close @ s"] assms(2)
      inner_marker_plain by simp
  have s3: "split_first ?pat (tag_close @ s)
        = map_option (\<lambda>(a, r). (0x3C # a, r)) (split_first ?pat (str ''/system>'' @ s))"
    using split_first_step[OF 3] by (simp add: tag_close_Cons)
  have s4: "split_first ?pat (str ''/system>'' @ s)
        = map_option (\<lambda>(a, r). (str ''/system>'' @ a, r)) (split_first ?pat s)"
    using split_first_skip[of "0x3C" "str ''/system>''" ?P s] inner_marker_plain by simp
  have "split_first ?pat (tag_open @ b' @ tag_close @ s) = split_first ?pat (0x3C # ?R)"
    by (simp add: tag_open_Cons)
  also have "\<dots> = map_option (\<lambda>(a, r). (tag_open @ b' @ tag_close @ a, r)) (split_first ?pat s)"
    unfolding s1 s2 s3 s4
    by (cases "split_first ?pat s") (auto simp: tag_open_Cons tag_close_Cons)
  finally show ?thesis unfolding pat .
qed

lemma replace_other:
  assumes "0x3C \<notin> set b" "0x3C \<notin> set b'" "b \<noteq> b'"
  shows "replace_first (tag_open @ b @ tag_close) (tag_open @ b' @ tag_close @ s)
       = tag_open @ b' @ tag_close @ replace_first (tag_open @ b @ tag_close) s"
  unfolding replace_first_def walk_tag[OF assms]
  by (cases "split_first (tag_open @ b @ tag_close) s") auto

lemma unbroken_Cons:
  "unbroken (Plain t # ps) \<longleftrightarrow> 0x3C \<notin> set t \<and> unbroken ps"
  "unbroken (Tagged b # ps) \<longleftrightarrow> 0x3C \<notin> set b \<and> unbroken ps"
  by (simp_all add: unbroken_def)

lemma unbroken_append: "unbroken (xs @ ys) \<longleftrightarrow> unbroken xs \<and> unbroken ys"
  by (auto simp: unbroken_def)

lemma replace_render:
  "unbroken ps \<Longrightarrow> 0x3C \<notin> set b \<Longrightarrow>
   replace_first (tag_open @ b @ tag_close) (render ps) = render (remove1 (Tagged b) ps)"
proof (induction ps)
  case Nil
  then show ?case by (simp add: replace_nil)
next
  case (Cons p ps)
  show ?case
  proof (cases p)
    case (Plain t)
    with Cons show ?thesis by (simp add: unbroken_Cons replace_plain)
  next
    case (Tagged b')
    with Cons show ?thesis
      by (cases "b = b'") (simp_all add: unbroken_Cons replace_same replace_other)
  qed
qed

lemma render_append: "render (xs @ ys) = render xs @ render ys"
  by (induction xs rule: render.induct) auto

lemma recognised_append: "recognised (xs @ ys) = recognised xs @ recognised ys"
  by (induction xs rule: recognised.induct) (auto split: sum.splits)

lemma loop_render:
  assumes "unbroken ps" "unbroken ds"
    and "\<forall>b. Tagged b \<in> set ds \<longrightarrow> isl (parse_intent b)"
  shows "parse_loop (render ps) f (render (ds @ ps))
           = (f @ recognised ps, render (ds @ leftover ps))"
  using assms
proof (induction ps arbitrary: ds f)
  case Nil
  then show ?case by (simp add: loop_nil)
next
  case (Cons p ps)
  show ?case
  proof (cases p)
    case (Plain t)
    with Cons.prems have t: "0x3C \<notin> set t" and ps: "unbroken ps"
      by (simp_all add: unbroken_Cons)
    have ds: "unbroken (ds @ [Plain t])"
      using Cons.prems(2) t by (simp add: unbroken_append unbroken_Cons unbroken_def)
    have "\<forall>b. Tagged b \<in> set (ds @ [Plain t]) \<longrightarrow> isl (parse_intent b)"
      using Cons.prems(3) by simp
    from Cons.IH[OF ps ds this, of f] Plain t show ?thesis
      by (simp add: loop_plain)
  next
    case (Tagged b)
    with Cons.prems have b: "0x3C \<notin> set b" and ps: "unbroken ps"
      by (simp_all add: unbroken_Cons)
    show ?thesis
    proof (cases "parse_intent b")
      case (Inl e)
      have ds: "unbroken (ds @ [Tagged b])"
        using Cons.prems(2) b by (simp add: unbroken_append unbroken_Cons unbroken_def)
      have "\<forall>b'. Tagged b' \<in> set (ds @ [Tagged b]) \<longrightarrow> isl (parse_intent b')"
        using Cons.prems(3) Inl by auto
      from Cons.IH[OF ps ds this, of f] Tagged b Inl show ?thesis
        by (simp add: loop_tagged)
    next
      case (Inr i)
      have "Tagged b \<notin> set ds" using Cons.prems(3) Inr by auto
      then have rm: "remove1 (Tagged b) (ds @ Tagged b # ps) = ds @ ps"
        by (simp add: remove1_append)
      have "unbroken (ds @ Tagged b # ps)"
        using Cons.prems(2) b ps by (simp add: unbroken_append unbroken_Cons)
      from replace_render[OF this b]
      have "replace_first (tag_open @ b @ tag_close) (render (ds @ Tagged b # ps))
              = render (ds @ ps)"
        by (simp add: rm)
      with Cons.IH[OF ps Cons.prems(2,3), of "f @ [i]"] Tagged b Inr show ?thesis
        by (simp add: loop_tagged)
    qed
  qed
qed

text \<open>On an unbroken response the extractor finds the intents of the tags whose body it
  accepts, and its text is what is left when exactly these tags are taken out,
  trimmed.\<close>

lemma parseResponse_render:
  assumes "unbroken ps"
  shows "parseResponse (render ps)
           = \<lparr>text' = trim (render (leftover ps)), intents = recognised ps\<rparr>"
  using loop_render[OF assms, of "[]" "[]"]
  by (simp add: parseResponse_def unbroken_def)

lemma recognised_leftover: "recognised (leftover ps) = []"
  by (induction ps rule: leftover.induct) (auto split: sum.splits)

lemma unbroken_leftover: "unbroken ps \<Longrightarrow> unbroken (leftover ps)"
  by (induction ps rule: leftover.induct) (auto simp: unbroken_def split: sum.splits)

lemma marker_not_ws: "\<not> is_ws 0x3C" "\<not> is_ws 0x3E"
  by (simp_all add: is_ws_def ws_units_def)

lemma trim_front:
  "unbroken qs \<Longrightarrow>
   \<exists>qs'. dropWhile is_ws (render qs) = render qs' \<and> unbroken qs'
         \<and> recognised qs' = recognised qs"
proof (induction qs)
  case Nil
  show ?case by (rule exI[of _ "[]"]) (simp add: unbroken_def)
next
  case (Cons p qs)
  show ?case
  proof (cases p)
    case (Plain t)
    with Cons.prems have t: "0x3C \<notin> set t" and qs: "unbroken qs"
      by (simp_all add: unbroken_Cons)
    show ?thesis
    proof (cases "\<forall>x \<in> set t. is_ws x")
      case True
      with Cons.IH[OF qs] Plain show ?thesis by (simp add: dropWhile_append)
    next
      case False
      have "0x3C \<notin> set (dropWhile is_ws t)" using t set_dropWhileD by fastforce
      with qs have "unbroken (Plain (dropWhile is_ws t) # qs)" by (simp add: unbroken_Cons)
      moreover have "dropWhile is_ws (render (p # qs)) = render (Plain (dropWhile is_ws t) # qs)"
        using False Plain by (auto simp: dropWhile_append)
      ultimately show ?thesis using Plain
        by (intro exI[of _ "Plain (dropWhile is_ws t) # qs"]) simp
    qed
  next
    case (Tagged b)
    then have "dropWhile is_ws (render (p # qs)) = render (p # qs)"
      by (simp add: tag_open_Cons marker_not_ws)
    with Cons.prems show ?thesis by (intro exI[of _ "p # qs"]) simp
  qed
qed

lemma trim_back:
  "unbroken qs \<Longrightarrow>
   \<exists>qs'. rev (dropWhile is_ws (rev (render qs))) = render qs' \<and> unbroken qs'
         \<and> recognised qs' = recognised qs"
proof (induction qs rule: rev_induct)
  case Nil
  show ?case by (rule exI[of _ "[]"]) (simp add: unbroken_def)
next
  case (snoc p qs)
  from snoc.prems have qs: "unbroken qs" by (simp add: unbroken_append)
  show ?case
  proof (cases p)
    case (Plain t)
    with snoc.prems have t: "0x3C \<notin> set t" by (simp add: unbroken_append unbroken_Cons)
    show ?thesis
    proof (cases "\<forall>x \<in> set t. is_ws x")
      case True
      with snoc.IH[OF qs] Plain show ?thesis
        by (simp add: render_append recognised_append dropWhile_append)
    next
      case False
      let ?t = "rev (dropWhile is_ws (rev t))"
      have "0x3C \<notin> set ?t" using t set_dropWhileD by fastforce
      with qs have u: "unbroken (qs @ [Plain ?t])"
        by (simp add: unbroken_append unbroken_Cons unbroken_def)
      have "rev (dropWhile is_ws (rev (render (qs @ [p])))) = render (qs @ [Plain ?t])"
        using False Plain by (auto simp: render_append dropWhile_append)
      with u Plain show ?thesis
        by (intro exI[of _ "qs @ [Plain ?t]"]) (simp add: recognised_append)
    qed
  next
    case (Tagged b)
    then have "rev (dropWhile is_ws (rev (render (qs @ [p])))) = render (qs @ [p])"
      by (simp add: render_append tag_close_def str_def marker_not_ws)
    with snoc.prems show ?thesis by (intro exI[of _ "qs @ [p]"]) simp
  qed
qed

lemma trim_render:
  assumes "unbroken qs"
  shows "\<exists>qs'. trim (render qs) = render qs' \<and> unbroken qs' \<and> recognised qs' = recognised qs"
proof -
  from trim_front[OF assms] obtain q1 where
    q1: "dropWhile is_ws (render qs) = render q1" "unbroken q1" "recognised q1 = recognised qs"
    by blast
  from trim_back[OF q1(2)] obtain q2 where
    "rev (dropWhile is_ws (rev (render q1))) = render q2" "unbroken q2"
    "recognised q2 = recognised q1"
    by blast
  with q1 show ?thesis by (intro exI[of _ q2]) (simp add: trim_def)
qed

text \<open>
  C6, as the code has it: on an unbroken response (the code unit \<open><\<close> occurs only as
  the first one of the markers of its tags, so that no marker is nested in a tag or split
  around one) a second pass over the text of the first pass finds no intent. The tags
  that are left are those whose body the first pass rejected, and the second pass rejects
  them again.
\<close>

theorem unbroken_response_is_exhausted:
  assumes "unbroken ps"
  shows "intents (parseResponse (text' (parseResponse (render ps)))) = []"
proof -
  from trim_render[OF unbroken_leftover[OF assms]] obtain qs where
    qs: "trim (render (leftover ps)) = render qs" "unbroken qs"
        "recognised qs = recognised (leftover ps)"
    by blast
  have "text' (parseResponse (render ps)) = render qs"
    by (simp add: parseResponse_render[OF assms] qs(1))
  then show ?thesis
    by (simp add: parseResponse_render[OF qs(2)] qs(3) recognised_leftover)
qed

text \<open>The witness has one tag that is accepted and one whose payload does not parse and
  stays in the text.\<close>

theorem unbroken_response_is_exhausted_witness:
  "parseResponse (str ''Plan: <system>create_task</system> Good luck! <system>note: {oops</system>'')
     = \<lparr>text' = str ''Plan:  Good luck! <system>note: {oops</system>'',
        intents = [\<lparr>action = str ''create_task'', data = JObj []\<rparr>]\<rparr>
   \<and> intents (parseResponse (text' (parseResponse
        (str ''Plan: <system>create_task</system> Good luck! <system>note: {oops</system>''))))
     = []"
proof -
  let ?ps = "[Plain (str ''Plan: ''), Tagged (str ''create_task''), Plain (str '' Good luck! ''),
              Tagged (str ''note: {oops'')]"
  have r: "render ?ps
      = str ''Plan: <system>create_task</system> Good luck! <system>note: {oops</system>''"
    by (simp add: tag_open_def tag_close_def str_def)
  have u: "unbroken ?ps" by (simp add: unbroken_def str_def)
  have first: "parseResponse
      (str ''Plan: <system>create_task</system> Good luck! <system>note: {oops</system>'')
     = \<lparr>text' = str ''Plan:  Good luck! <system>note: {oops</system>'',
        intents = [\<lparr>action = str ''create_task'', data = JObj []\<rparr>]\<rparr>"
    by code_simp
  from unbroken_response_is_exhausted[OF u] first show ?thesis
    unfolding r by simp
qed

section \<open>Properties of the completion request\<close>

text \<open>
  C8. The temperature of the outgoing request is \<open>temperature || 0.7\<close>: a persona whose
  temperature is 0 supplies one, and the request carries 0.7 all the same.
\<close>

theorem zero_temperature_is_replaced:
  "temperature' (requestBody (Some (p\<lparr>temperature := 0\<rparr>)) msgs) = 7 / 10"
  by (simp add: requestBody_def)

text \<open>Any other temperature is sent as it is, and a missing persona gives the
  default.\<close>

lemma nonzero_temperature_is_sent:
  "temperature p \<noteq> 0 \<Longrightarrow> temperature' (requestBody (Some p) msgs) = temperature p"
  by (simp add: requestBody_def)

lemma absent_persona_gets_default:
  "temperature' (requestBody None msgs) = 7 / 10"
  by (simp add: requestBody_def)

section \<open>Properties of the persona store\<close>

lemma set_obj_set: "set (obj_set k v m) \<subseteq> insert (k, v) (set m)"
  by (induction m) (auto split: if_splits)

lemma obj_set_not_empty [simp]: "obj_set k v m \<noteq> []"
  by (cases m) (auto split: if_splits)

lemma set_new_not_empty [simp]: "personas (set_new p E) \<noteq> []"
  by (simp add: set_new_def new_object_def)

lemma set_all_not_empty: "personas E \<noteq> [] \<Longrightarrow> personas (set_all ps E) \<noteq> []"
  unfolding set_all_def by (induction ps arbitrary: E) auto

lemma initPersonas_not_empty: "personas (initPersonas prose E) \<noteq> []"
proof -
  have "personas (loadBuiltInPersonas prose E) \<noteq> []"
    by (simp add: loadBuiltInPersonas_def builtInPersonas_def set_all_def)
  then show ?thesis
    by (auto simp: initPersonas_def loadCustomPersonas_def set_all_not_empty
        split: prod.splits sum.splits option.splits)
qed

lemma loaded_not_empty: "personas (loaded prose E) \<noteq> []"
  by (simp add: loaded_def initPersonas_not_empty)

lemma sound_set_new: "sound E \<Longrightarrow> sound (set_new p E)"
  using set_obj_set[of "persona_id p" "length (heap E)" "personas E"]
  by (fastforce simp: sound_def held_def set_new_def new_object_def is_object_def)

lemma sound_set_all: "sound E \<Longrightarrow> sound (set_all ps E)"
  unfolding set_all_def by (induction ps arbitrary: E) (auto simp: sound_set_new)

lemma sound_storage [simp]: "sound (E\<lparr>storage := st\<rparr>) = sound E"
  by (simp add: sound_def held_def is_object_def)

lemma sound_loaded: "sound E \<Longrightarrow> sound (loaded prose E)"
  by (auto simp: loaded_def initPersonas_def loadBuiltInPersonas_def loadCustomPersonas_def
      sound_set_all split: prod.splits sum.splits option.splits)

text \<open>The definitions that an evaluation of the persona store unfolds.\<close>

lemmas persona_eval =
  savePersona_def deletePersona_def getAllPersonas_def getPersona_def duplicatePersona_def
  loaded_def initPersonas_def loadBuiltInPersonas_def loadCustomPersonas_def
  saveCustomPersonas_def builtInPersonas_def builtIn_def set_all_def set_new_def
  new_object_def assign_def object_def is_object_def markCustom_def copyOf_def map_delete_def
  getItem_def setItem_def rejected_def called_def empty_storage_def fresh_engine_def
  blank_prose_def personasKey_def Let_def str_def

text \<open>
  C7. \<open>getPersona\<close> returns a profile for every identifier and every state of the
  engine: the profile stored under the identifier, else the one stored under
  \<open>commander\<close>, else the first profile of the collection, which is never empty once the
  guard of the method has run. What it returns is the stored object itself, by reference;
  in a sound store, the reference is an object of the heap.
\<close>

theorem getPersona_falls_back:
  "personas (loaded prose E) \<noteq> []
   \<and> getPersona prose personaId E =
       (Some (case map_of (personas (loaded prose E)) personaId of
                Some p \<Rightarrow> p
              | None \<Rightarrow>
                  (case map_of (personas (loaded prose E)) (str ''commander'') of
                     Some c \<Rightarrow> c
                   | None \<Rightarrow> snd (hd (personas (loaded prose E))))),
        loaded prose E)
   \<and> (sound E \<longrightarrow>
        is_object (snd (getPersona prose personaId E)) (the (fst (getPersona prose personaId E))))"
proof -
  let ?L = "loaded prose E"
  let ?r = "case map_of (personas ?L) personaId of
              Some p \<Rightarrow> p
            | None \<Rightarrow>
                (case map_of (personas ?L) (str ''commander'') of
                   Some c \<Rightarrow> c
                 | None \<Rightarrow> snd (hd (personas ?L)))"
  have ne: "personas ?L \<noteq> []" by (rule loaded_not_empty)
  then have get: "getPersona prose personaId E = (Some ?r, ?L)"
    by (auto simp: getPersona_def Let_def split: option.splits list.splits)
  have "?r \<in> held ?L"
    using ne by (auto simp: held_def split: option.splits dest!: map_of_SomeD intro: rev_image_eqI)
  then have "sound E \<longrightarrow> is_object ?L ?r"
    using sound_loaded[of E prose] by (auto simp: sound_def)
  with ne get show ?thesis by simp
qed

text \<open>In a new engine an unknown identifier gives the object of \<open>commander\<close>, the second
  one that \<open>loadBuiltInPersonas\<close> creates.\<close>

theorem getPersona_falls_back_witness:
  "sound fresh_engine
   \<and> getPersona blank_prose (str ''nobody'') fresh_engine
       = (Some 1, loaded blank_prose fresh_engine)
   \<and> is_object (loaded blank_prose fresh_engine) 1"
  using getPersona_falls_back[of blank_prose fresh_engine "str ''nobody''"]
  by (simp add: sound_def held_def persona_eval)

section \<open>Properties of the conversation memory\<close>

lemma conversationKey_not_memory [simp]:
  "conversationKey c \<noteq> memoryKey i" "conversationKey c \<noteq> indexKey c'"
  "memoryKey i \<noteq> conversationKey c" "indexKey c' \<noteq> conversationKey c"
  by (simp_all add: conversationKey_def memoryKey_def indexKey_def str_def)

lemma index_keeps_log:
  "entries (indexMessageForSearch U c m s) (conversationKey c) = entries s (conversationKey c)"
  by (auto simp: indexMessageForSearch_def setItem_def getItem_def called_def
      split: prod.splits sum.splits if_splits)

text \<open>
  C4. \<open>getRecentMessages\<close> takes \<open>messages.slice(-limit)\<close>. With the limit 0 that is
  \<open>slice(-0)\<close>, the whole log: two messages are appended to an empty store, and a
  request for at most 0 of them returns both.
\<close>

theorem limit_zero_returns_whole_log:
  "fst (getRecentMessages (str ''c1'') (Some 0)
         (snd (saveMessage ascii_tables (str ''c1'') (text_message ''m2'' Assistant ''Hi there'')
           (snd (saveMessage ascii_tables (str ''c1'') (text_message ''m1'' User ''Hello'')
              empty_storage)))))
   = JArr [message_json (text_message ''m1'' User ''Hello''),
           message_json (text_message ''m2'' Assistant ''Hi there'')]"
  by (simp add: getRecentMessages_def getAllMessages_def saveMessage_def getItem_def setItem_def
      rejected_def called_def empty_storage_def slice_from_def text_message_def trim_def
      is_ws_def ws_units_def str_def)

text \<open>For a limit above 0 and a log that the storage hands out, the result is the last
  \<open>min limit (length log)\<close> messages in the order of the log, and no entry changes, so
  that a second call returns the same.\<close>

lemma recent_with_positive_limit:
  assumes "entries s (conversationKey c) = Some (JArr xs)" "\<not> rejected s" "0 < n"
  shows "getRecentMessages c (Some n) s = (JArr (drop (length xs - nat n) xs), called s)"
proof -
  have "nat (max (int (length xs) + - n) 0) = length xs - nat n"
    using \<open>0 < n\<close> by (simp add: max_def) linarith
  with assms show ?thesis
    by (simp add: getRecentMessages_def getAllMessages_def getItem_def slice_from_def Let_def)
qed

text \<open>
  C9. When the read and the write of the conversation log are not rejected, and the log
  is absent or an array, \<open>saveMessage\<close> returns normally and the message is the last one
  of the log, whatever happens to the storage calls of \<open>indexMessageForSearch\<close>.
\<close>

theorem saveMessage_ignores_index_failure:
  assumes "\<not> rejects s (calls s)" and "\<not> rejects s (Suc (calls s))"
    and "entries s (conversationKey c) = None \<and> old = []
         \<or> entries s (conversationKey c) = Some (JArr old)"
  shows "fst (saveMessage U c m s) = Inr ()
         \<and> entries (snd (saveMessage U c m s)) (conversationKey c)
             = Some (JArr (old @ [message_json m]))"
  using assms
  by (auto simp: saveMessage_def getItem_def setItem_def rejected_def called_def index_keeps_log)

text \<open>The witness rejects every call after the first two: the message is in the log and
  no memory item exists.\<close>

theorem saveMessage_ignores_index_failure_witness:
  "fst (saveMessage ascii_tables (str ''c1'') (text_message ''m1'' User ''Plan the whole week'')
         (empty_storage\<lparr>rejects := rejecting_from 2\<rparr>)) = Inr ()
   \<and> entries (snd (saveMessage ascii_tables (str ''c1'')
         (text_message ''m1'' User ''Plan the whole week'')
         (empty_storage\<lparr>rejects := rejecting_from 2\<rparr>))) (conversationKey (str ''c1''))
       = Some (JArr [message_json (text_message ''m1'' User ''Plan the whole week'')])
   \<and> entries (snd (saveMessage ascii_tables (str ''c1'')
         (text_message ''m1'' User ''Plan the whole week'')
         (empty_storage\<lparr>rejects := rejecting_from 2\<rparr>))) (memoryKey (str ''m1'')) = None"
proof -
  let ?s = "empty_storage\<lparr>rejects := rejecting_from 2\<rparr> :: jv asyncStorage"
  have 1: "\<not> rejects ?s (calls ?s)" and 2: "\<not> rejects ?s (Suc (calls ?s))"
    by (simp_all add: empty_storage_def rejecting_from_def)
  have 3: "entries ?s (conversationKey (str ''c1'')) = None \<and> ([]::jv list) = []
           \<or> entries ?s (conversationKey (str ''c1'')) = Some (JArr [])"
    by (simp add: empty_storage_def)
  have 4: "entries (snd (saveMessage ascii_tables (str ''c1'')
         (text_message ''m1'' User ''Plan the whole week'') ?s)) (memoryKey (str ''m1'')) = None"
    by (simp add: saveMessage_def indexMessageForSearch_def getItem_def setItem_def rejected_def
        called_def empty_storage_def text_message_def trim_def is_ws_def ws_units_def str_def
        memoryKey_def conversationKey_def rejecting_from_def)
  from saveMessage_ignores_index_failure[OF 1 2 3, of ascii_tables
      "text_message ''m1'' User ''Plan the whole week''"] 4
  show ?thesis by simp
qed

subsection \<open>Memory items\<close>

lemma memoryKey_inj [simp]: "memoryKey i = memoryKey j \<longleftrightarrow> i = j"
  by (simp add: memoryKey_def)

text \<open>
  C3, as the code has it. The test is on the trimmed content alone, and the role plays no
  part. When no storage call is rejected, the log and the index are absent or arrays, and
  the key of the item is not the key of the index: a message whose trimmed content has at
  most 10 code units changes the log only; any other message, a system message too, also
  stores one memory item under the key of its identifier and appends that identifier to
  the index of the conversation.
\<close>

theorem append_writes_one_memory_item:
  assumes "\<forall>n. \<not> rejects s n"
    and "entries s (conversationKey c) = None \<and> old = []
         \<or> entries s (conversationKey c) = Some (JArr old)"
    and "entries s (indexKey c) = None \<and> ids = []
         \<or> entries s (indexKey c) = Some (JArr ids)"
    and "memoryKey (message_id m) \<noteq> indexKey c"
  shows "fst (saveMessage U c m s) = Inr ()
     \<and> entries (snd (saveMessage U c m s)) =
        (if length (trim (content m)) \<le> 10
         then (entries s)(conversationKey c \<mapsto> JArr (old @ [message_json m]))
         else (entries s)
                (conversationKey c \<mapsto> JArr (old @ [message_json m]),
                 memoryKey (message_id m) \<mapsto> memoryItem U c m,
                 indexKey c \<mapsto> JArr (ids @ [JStr (message_id m)])))"
  using assms
  by (auto simp: saveMessage_def indexMessageForSearch_def getItem_def setItem_def
      rejected_def called_def)

text \<open>The witness appends a system message of 21 code units to an empty store.\<close>

theorem append_writes_one_memory_item_witness:
  "entries (snd (saveMessage ascii_tables (str ''c1'')
       (text_message ''m1'' System ''Always answer briefly'') empty_storage))
   = [conversationKey (str ''c1'') \<mapsto>
        JArr [message_json (text_message ''m1'' System ''Always answer briefly'')],
      memoryKey (str ''m1'') \<mapsto>
        memoryItem ascii_tables (str ''c1'') (text_message ''m1'' System ''Always answer briefly''),
      indexKey (str ''c1'') \<mapsto> JArr [JStr (str ''m1'')]]"
proof -
  let ?s = "empty_storage :: jv asyncStorage"
  let ?m = "text_message ''m1'' System ''Always answer briefly''"
  have 1: "\<forall>n. \<not> rejects ?s n" by (simp add: empty_storage_def)
  have 2: "entries ?s (conversationKey (str ''c1'')) = None \<and> ([]::jv list) = []
           \<or> entries ?s (conversationKey (str ''c1'')) = Some (JArr [])"
    by (simp add: empty_storage_def)
  have 3: "entries ?s (indexKey (str ''c1'')) = None \<and> ([]::jv list) = []
           \<or> entries ?s (indexKey (str ''c1'')) = Some (JArr [])"
    by (simp add: empty_storage_def)
  have 4: "memoryKey (message_id ?m) \<noteq> indexKey (str ''c1'')"
    by (simp add: memoryKey_def indexKey_def text_message_def str_def)
  have 5: "\<not> length (trim (content ?m)) \<le> 10"
    by (simp add: text_message_def trim_def is_ws_def ws_units_def str_def)
  from append_writes_one_memory_item[OF 1 2 3 4, of ascii_tables] 5
  show ?thesis by (simp add: empty_storage_def text_message_def)
qed

text \<open>
  C3, as the claim states it, fails both ways: a system message of more than 10 code
  units gets a memory item, and a user message of 12 code units, of which 5 are left
  after trimming, gets none.
\<close>

theorem system_message_indexed_counterexample:
  "role (text_message ''m1'' System ''Always answer briefly'') = System
   \<and> entries (snd (saveMessage ascii_tables (str ''c1'')
         (text_message ''m1'' System ''Always answer briefly'') empty_storage))
       (memoryKey (str ''m1''))
     = Some (memoryItem ascii_tables (str ''c1'')
         (text_message ''m1'' System ''Always answer briefly''))
   \<and> role (text_message ''m2'' User ''   hello    '') = User
   \<and> length (content (text_message ''m2'' User ''   hello    '')) = 12
   \<and> entries (snd (saveMessage ascii_tables (str ''c1'')
         (text_message ''m2'' User ''   hello    '') empty_storage))
       (memoryKey (str ''m2'')) = None"
  by (simp add: saveMessage_def indexMessageForSearch_def getItem_def setItem_def rejected_def
      called_def empty_storage_def text_message_def trim_def is_ws_def ws_units_def str_def
      memoryKey_def conversationKey_def indexKey_def)

subsection \<open>Clearing\<close>

lemma removeMemoryItems_keeps_log:
  "entries (snd (removeMemoryItems xs s)) (conversationKey c) = entries s (conversationKey c)"
  by (induction xs arbitrary: s)
     (auto simp: removeItem_def called_def split: prod.splits sum.splits if_splits)

lemma removeMemoryItems_keeps_log':
  "removeMemoryItems xs s = (r, s') \<Longrightarrow> entries s' (conversationKey c) = entries s (conversationKey c)"
  using removeMemoryItems_keeps_log[of xs s c] by simp

lemma clearMemory_keeps_log:
  "entries (clearMemoryForConversation c s) (conversationKey c') = entries s (conversationKey c')"
  by (auto simp: clearMemoryForConversation_def getItem_def removeItem_def called_def
      split: prod.splits sum.splits option.splits if_splits
      dest!: removeMemoryItems_keeps_log'[where c=c'])

lemma recent_of_missing_log:
  "entries s (conversationKey c) = None \<Longrightarrow> fst (getRecentMessages c limit s) = JArr []"
  by (auto simp: getRecentMessages_def getAllMessages_def getItem_def slice_from_def
      split: option.splits)

lemma removeMemoryItems_all:
  "\<forall>n. \<not> rejects s n \<Longrightarrow>
   removeMemoryItems xs s =
     (Inr (), s\<lparr>entries := (\<lambda>k. if k \<in> (\<lambda>x. memoryKey (to_string x)) ` set xs then None
                                 else entries s k),
               calls := calls s + length xs\<rparr>)"
proof (induction xs arbitrary: s)
  case Nil
  then show ?case by simp
next
  case (Cons x xs)
  let ?s1 = "called (s\<lparr>entries := (entries s)(memoryKey (to_string x) := None)\<rparr>)"
  have "\<forall>n. \<not> rejects ?s1 n" using Cons.prems by (simp add: called_def)
  from Cons.IH[OF this] Cons.prems show ?case
    by (auto simp: removeItem_def rejected_def called_def fun_eq_iff)
qed

text \<open>
  C5, as the code has it. When \<open>clearConversation\<close> returns normally the log is gone and
  \<open>getRecentMessages\<close> returns the empty list for every limit. The memory items named by
  the index, and the index itself, are gone when moreover no storage call is rejected and
  the index is an array of strings.
\<close>

theorem clear_removes_conversation:
  assumes "fst (clearConversation c s) = Inr ()"
  shows "entries (snd (clearConversation c s)) (conversationKey c) = None
     \<and> (\<forall>limit. fst (getRecentMessages c limit (snd (clearConversation c s))) = JArr [])
     \<and> ((\<forall>n. \<not> rejects s n) \<and> entries s (indexKey c) = Some (JArr (map JStr ids))
          \<longrightarrow> (\<forall>i \<in> set ids. entries (snd (clearConversation c s)) (memoryKey i) = None)
              \<and> entries (snd (clearConversation c s)) (indexKey c) = None)"
proof -
  let ?s' = "snd (clearConversation c s)"
  have gone: "entries ?s' (conversationKey c) = None"
    using assms
    by (auto simp: clearConversation_def removeItem_def called_def clearMemory_keeps_log
        split: if_splits)
  have items: "(\<forall>i \<in> set ids. entries ?s' (memoryKey i) = None) \<and> entries ?s' (indexKey c) = None"
    if ok: "\<forall>n. \<not> rejects s n" and idx: "entries s (indexKey c) = Some (JArr (map JStr ids))"
    using ok idx
    by (auto simp: clearConversation_def clearMemoryForConversation_def removeItem_def
        getItem_def rejected_def called_def removeMemoryItems_all image_image)
  from gone items show ?thesis by (simp add: recent_of_missing_log)
qed


text \<open>The witness appends a message that gets a memory item, and clears.\<close>

theorem clear_removes_conversation_witness:
  "fst (clearConversation (str ''c1'')
         (snd (saveMessage ascii_tables (str ''c1'')
            (text_message ''m1'' User ''Plan the whole week'') empty_storage))) = Inr ()
   \<and> entries (snd (clearConversation (str ''c1'')
         (snd (saveMessage ascii_tables (str ''c1'')
            (text_message ''m1'' User ''Plan the whole week'') empty_storage))))
       (conversationKey (str ''c1'')) = None
   \<and> fst (getRecentMessages (str ''c1'') (Some 10)
         (snd (clearConversation (str ''c1'')
           (snd (saveMessage ascii_tables (str ''c1'')
              (text_message ''m1'' User ''Plan the whole week'') empty_storage))))) = JArr []
   \<and> entries (snd (clearConversation (str ''c1'')
         (snd (saveMessage ascii_tables (str ''c1'')
            (text_message ''m1'' User ''Plan the whole week'') empty_storage))))
       (memoryKey (str ''m1'')) = None
   \<and> entries (snd (clearConversation (str ''c1'')
         (snd (saveMessage ascii_tables (str ''c1'')
            (text_message ''m1'' User ''Plan the whole week'') empty_storage))))
       (indexKey (str ''c1'')) = None"
proof -
  let ?s = "snd (saveMessage ascii_tables (str ''c1'')
              (text_message ''m1'' User ''Plan the whole week'') empty_storage)"
  have s: "rejects ?s = (\<lambda>n. False) \<and> entries ?s (indexKey (str ''c1'')) = Some (JArr [JStr (str ''m1'')])"
    by (simp add: saveMessage_def indexMessageForSearch_def getItem_def setItem_def rejected_def
        called_def empty_storage_def text_message_def trim_def is_ws_def ws_units_def str_def
        memoryKey_def conversationKey_def indexKey_def)
  then have a: "fst (clearConversation (str ''c1'') ?s) = Inr ()"
    by (simp add: clearConversation_def removeItem_def rejected_def)
  from s have b: "(\<forall>n. \<not> rejects ?s n)
      \<and> entries ?s (indexKey (str ''c1'')) = Some (JArr (map JStr [str ''m1'']))"
    by simp
  from clear_removes_conversation[OF a, of "[str ''m1'']"] a b
  show ?thesis by simp
qed

text \<open>
  C5, as the claim states it, fails when the storage rejects the read of the index (the
  seventh call here, after five calls of the append and the removal of the log):
  \<open>clearMemoryForConversation\<close> swallows the rejection, \<open>clearConversation\<close> returns
  normally, and the memory item and the index are still stored.
\<close>

theorem swallowed_rejection_keeps_items_counterexample:
  "fst (clearConversation (str ''c1'')
         ((snd (saveMessage ascii_tables (str ''c1'')
            (text_message ''m1'' User ''Plan the whole week'') empty_storage))
            \<lparr>rejects := rejecting_only 6\<rparr>)) = Inr ()
   \<and> entries (snd (clearConversation (str ''c1'')
         ((snd (saveMessage ascii_tables (str ''c1'')
            (text_message ''m1'' User ''Plan the whole week'') empty_storage))
            \<lparr>rejects := rejecting_only 6\<rparr>))) (memoryKey (str ''m1''))
       = Some (memoryItem ascii_tables (str ''c1'')
            (text_message ''m1'' User ''Plan the whole week''))
   \<and> entries (snd (clearConversation (str ''c1'')
         ((snd (saveMessage ascii_tables (str ''c1'')
            (text_message ''m1'' User ''Plan the whole week'') empty_storage))
            \<lparr>rejects := rejecting_only 6\<rparr>))) (indexKey (str ''c1''))
       = Some (JArr [JStr (str ''m1'')])"
  by (simp add: clearConversation_def clearMemoryForConversation_def removeItem_def
      saveMessage_def indexMessageForSearch_def getItem_def setItem_def rejected_def
      called_def empty_storage_def text_message_def trim_def is_ws_def ws_units_def str_def
      memoryKey_def conversationKey_def indexKey_def rejecting_only_def)

section \<open>The built-in personas under sequences of operations\<close>

lemma map_of_obj_set: "map_of (obj_set k v m) b = (if b = k then Some v else map_of m b)"
  by (induction m) auto

lemma map_of_map_delete: "map_of (map_delete k m) b = (if b = k then None else map_of m b)"
  unfolding map_delete_def by (induction m) auto

lemma set_map_delete: "set (map_delete k m) = {(k', v) \<in> set m. k' \<noteq> k}"
  unfolding map_delete_def by auto

lemma generated_id_not_builtIn: "str ''persona_'' @ x \<notin> set builtInIds"
  by (simp add: builtInIds_def str_def)

lemma generated_id_not_empty: "str ''persona_'' @ x \<noteq> []"
  by (simp add: str_def)

lemma builtInsPresent_iff:
  "builtInsPresent E \<longleftrightarrow>
     (\<forall>b \<in> set builtInIds. \<exists>r. map_of (personas E) b = Some r \<and> r < length (heap E)
                                \<and> \<not> isCustom (heap E ! r))"
  by (auto simp: builtInsPresent_def present_def is_object_def object_def split: option.splits)

lemma keyed_iff:
  "keyed E \<longleftrightarrow>
     (\<forall>k r. (k, r) \<in> set (personas E) \<longrightarrow>
        k \<noteq> [] \<and> r < length (heap E) \<and> persona_id (heap E ! r) = k)"
  by (auto simp: keyed_def is_object_def object_def)

lemma builtInsPresent_loaded: "builtInsPresent E \<Longrightarrow> loaded prose E = E"
  by (auto simp: builtInsPresent_def present_def loaded_def builtInIds_def)

text \<open>A step that stores the object \<open>r\<close> under \<open>k\<close> and leaves the other objects of the
  store alone.\<close>

lemma store_keeps:
  assumes P: "builtInsPresent E" and K: "keyed E"
    and len: "length (heap E) \<le> length (heap E')"
    and same: "\<And>q. q \<in> held E \<Longrightarrow> q \<noteq> r \<Longrightarrow> heap E' ! q = heap E ! q"
    and pers: "personas E' = obj_set k r (personas E)"
    and r: "r < length (heap E')" "persona_id (heap E' ! r) = k" "k \<noteq> []"
      "k \<notin> set builtInIds"
    and old: "\<And>k'. (k', r) \<in> set (personas E) \<Longrightarrow> k' = k"
  shows "builtInsPresent E' \<and> keyed E'"
proof
  show "builtInsPresent E'"
    unfolding builtInsPresent_iff
  proof
    fix b assume b: "b \<in> set builtInIds"
    with P obtain rb where rb: "map_of (personas E) b = Some rb" "rb < length (heap E)"
      "\<not> isCustom (heap E ! rb)"
      unfolding builtInsPresent_iff by blast
    from b r(4) have bk: "b \<noteq> k" by blast
    from rb(1) have mem: "(b, rb) \<in> set (personas E)" by (rule map_of_SomeD)
    with old bk have "rb \<noteq> r" by blast
    moreover from mem have "rb \<in> held E" by (force simp: held_def)
    ultimately have "heap E' ! rb = heap E ! rb" by (rule same[rotated])
    with rb len bk show "\<exists>r. map_of (personas E') b = Some r \<and> r < length (heap E')
                           \<and> \<not> isCustom (heap E' ! r)"
      by (simp add: pers map_of_obj_set)
  qed
  show "keyed E'"
    unfolding keyed_iff
  proof (intro allI impI)
    fix k2 r2 assume "(k2, r2) \<in> set (personas E')"
    then consider "k2 = k" "r2 = r" | "(k2, r2) \<in> set (personas E)"
      using set_obj_set[of k r "personas E"] pers by auto
    then show "k2 \<noteq> [] \<and> r2 < length (heap E') \<and> persona_id (heap E' ! r2) = k2"
    proof cases
      case 1
      with r show ?thesis by simp
    next
      case 2
      show ?thesis
      proof (cases "r2 = r")
        case True
        with 2 old have "k2 = k" by blast
        with True r show ?thesis by simp
      next
        case False
        from 2 have "r2 \<in> held E" by (force simp: held_def)
        from same[OF this False] 2 K len show ?thesis
          unfolding keyed_iff by fastforce
      qed
    qed
  qed
qed

text \<open>A step that leaves the \<open>Map\<close> alone, and the identifier and the mark of every
  object that it holds.\<close>

lemma heap_keeps:
  assumes P: "builtInsPresent E" and K: "keyed E"
    and len: "length (heap E) \<le> length (heap E')"
    and pers: "personas E' = personas E"
    and same: "\<And>q. q \<in> held E \<Longrightarrow>
                 persona_id (heap E' ! q) = persona_id (heap E ! q)
                 \<and> isCustom (heap E' ! q) = isCustom (heap E ! q)"
  shows "builtInsPresent E' \<and> keyed E'"
proof
  show "builtInsPresent E'"
    unfolding builtInsPresent_iff
  proof
    fix b assume b: "b \<in> set builtInIds"
    with P obtain rb where rb: "map_of (personas E) b = Some rb" "rb < length (heap E)"
      "\<not> isCustom (heap E ! rb)"
      unfolding builtInsPresent_iff by blast
    from rb(1) have "rb \<in> held E" by (force simp: held_def dest: map_of_SomeD)
    from same[OF this] rb len
    show "\<exists>r. map_of (personas E') b = Some r \<and> r < length (heap E')
               \<and> \<not> isCustom (heap E' ! r)"
      by (simp add: pers)
  qed
  show "keyed E'"
    unfolding keyed_iff
  proof (intro allI impI)
    fix k r assume mem: "(k, r) \<in> set (personas E')"
    then have "r \<in> held E" by (force simp: held_def pers)
    from same[OF this] mem K len
    show "k \<noteq> [] \<and> r < length (heap E') \<and> persona_id (heap E' ! r) = k"
      unfolding keyed_iff pers by fastforce
  qed
qed

lemma delete_keeps:
  assumes P: "builtInsPresent E" and K: "keyed E"
    and heap: "heap E' = heap E"
    and pers: "personas E' = map_delete i (personas E)"
    and i: "map_of (personas E) i = Some r" "isCustom (heap E ! r)"
  shows "builtInsPresent E' \<and> keyed E'"
proof
  show "builtInsPresent E'"
    unfolding builtInsPresent_iff
  proof
    fix b assume b: "b \<in> set builtInIds"
    with P obtain rb where rb: "map_of (personas E) b = Some rb" "rb < length (heap E)"
      "\<not> isCustom (heap E ! rb)"
      unfolding builtInsPresent_iff by blast
    with i have "b \<noteq> i" by auto
    with rb show "\<exists>r. map_of (personas E') b = Some r \<and> r < length (heap E')
                      \<and> \<not> isCustom (heap E' ! r)"
      by (simp add: pers heap map_of_map_delete)
  qed
  show "keyed E'"
    using K unfolding keyed_iff pers heap set_map_delete by blast
qed

lemma snd_outcome:
  "snd (case x of (Inl e, E') \<Rightarrow> (Inl err, E') | (Inr u, E') \<Rightarrow> (Inr v, E')) = snd x"
  by (cases x) (auto split: sum.splits)

lemma saveCustomPersonas_store:
  "heap (snd (saveCustomPersonas E)) = heap E"
  "personas (snd (saveCustomPersonas E)) = personas E"
  by (simp_all add: saveCustomPersonas_def setItem_def)

lemma markCustom_id:
  "persona_id (markCustom now p) =
     (if persona_id p = [] then str ''persona_'' @ decimal now else persona_id p)"
  by (simp add: markCustom_def)

lemma markCustom_id_not_empty: "persona_id (markCustom now p) \<noteq> []"
  by (simp add: markCustom_id str_def)

lemma markCustom_copyOf: "markCustom now (copyOf now newName b) = copyOf now newName b"
  by (simp add: markCustom_def copyOf_def str_def)

lemma copyOf_id: "persona_id (copyOf now newName b) = str ''persona_'' @ decimal now"
  by (simp add: copyOf_def)

lemma loaded_idem: "loaded prose (loaded prose E) = loaded prose E"
  using initPersonas_not_empty[of prose E] by (simp add: loaded_def)

lemma getPersona_state: "snd (getPersona prose i E) = loaded prose E"
  by (simp add: getPersona_def Let_def split: option.splits list.splits)

lemma getAllPersonas_state: "snd (getAllPersonas prose E) = loaded prose E"
  by (simp add: getAllPersonas_def Let_def)

lemma savePersona_no_object:
  "\<not> is_object E r \<Longrightarrow> snd (savePersona prose now r E) = loaded prose E"
  by (simp add: savePersona_def Let_def)

lemma savePersona_store:
  assumes "loaded prose E = E" "is_object E r"
  shows "heap (snd (savePersona prose now r E)) = (heap E)[r := markCustom now (heap E ! r)]"
    and "personas (snd (savePersona prose now r E)) =
           obj_set (persona_id (markCustom now (heap E ! r))) r (personas E)"
  using assms
  by (simp_all add: savePersona_def Let_def snd_outcome saveCustomPersonas_store assign_def
      object_def is_object_def)

lemma deletePersona_store:
  assumes "loaded prose E = E"
  shows "heap (snd (deletePersona prose i E)) = heap E"
    and "personas (snd (deletePersona prose i E)) =
           (case map_of (personas E) i of
              None \<Rightarrow> personas E
            | Some r \<Rightarrow> if isCustom (heap E ! r) then map_delete i (personas E)
                        else personas E)"
  using assms
  by (simp_all add: deletePersona_def Let_def snd_outcome saveCustomPersonas_store object_def
      split: option.splits)

lemma duplicatePersona_store:
  assumes L: "loaded prose E = E"
  shows "(fst (getPersona prose base E) = None
          \<and> snd (duplicatePersona prose now base newName E) = E)
       \<or> (\<exists>b. fst (getPersona prose base E) = Some b
             \<and> heap (snd (duplicatePersona prose now base newName E)) =
                 heap E @ [copyOf now newName (heap E ! b)]
             \<and> personas (snd (duplicatePersona prose now base newName E)) =
                 obj_set (str ''persona_'' @ decimal now) (length (heap E)) (personas E))"
proof (cases "getPersona prose base E")
  case (Pair ro E1)
  then have E1: "E1 = E"
    using getPersona_state[of prose base E] L by simp
  show ?thesis
  proof (cases ro)
    case None
    with Pair E1 L show ?thesis by (simp add: duplicatePersona_def)
  next
    case (Some b)
    let ?c = "copyOf now newName (heap E ! b)"
    let ?E2 = "E\<lparr>heap := heap E @ [?c]\<rparr>"
    from L have "personas E \<noteq> []"
      using loaded_not_empty[of prose E] by simp
    then have L2: "loaded prose ?E2 = ?E2" by (simp add: loaded_def)
    have o2: "is_object ?E2 (length (heap E))" by (simp add: is_object_def)
    from savePersona_store[OF L2 o2, of now]
    have "heap (snd (savePersona prose now (length (heap E)) ?E2)) = heap E @ [?c]"
      and "personas (snd (savePersona prose now (length (heap E)) ?E2)) =
             obj_set (str ''persona_'' @ decimal now) (length (heap E)) (personas E)"
      by (simp_all add: markCustom_copyOf copyOf_id)
    with Pair Some E1 L show ?thesis
      by (simp add: duplicatePersona_def new_object_def object_def snd_outcome)
  qed
qed

lemma keyed_held: "keyed E \<Longrightarrow> q \<in> held E \<Longrightarrow> q < length (heap E)"
  by (auto simp: keyed_iff held_def)

lemma savePersona_keeps:
  assumes P: "builtInsPresent E" and K: "keyed E" and A: "admits E (Save now r)"
  shows "builtInsPresent (snd (savePersona prose now r E))
       \<and> keyed (snd (savePersona prose now r E))"
proof (cases "is_object E r")
  case False
  with P K show ?thesis by (simp add: savePersona_no_object builtInsPresent_loaded)
next
  case True
  let ?E' = "snd (savePersona prose now r E)"
  let ?p = "heap E ! r"
  let ?k = "persona_id (markCustom now ?p)"
  note L = builtInsPresent_loaded[OF P, of prose]
  note st = savePersona_store[OF L True, of now]
  from True have r: "r < length (heap E)" by (simp add: is_object_def)
  from A True have nb: "persona_id ?p \<notin> set builtInIds" by (simp add: object_def)
  show ?thesis
  proof (rule store_keeps[OF P K, of ?E' r ?k])
    show "length (heap E) \<le> length (heap ?E')" by (simp add: st)
    show "heap ?E' ! q = heap E ! q" if "q \<in> held E" "q \<noteq> r" for q
      using that by (simp add: st)
    show "personas ?E' = obj_set ?k r (personas E)" by (simp add: st)
    show "r < length (heap ?E')" using r by (simp add: st)
    show "persona_id (heap ?E' ! r) = ?k" using r by (simp add: st)
    show "?k \<noteq> []" by (rule markCustom_id_not_empty)
    show "?k \<notin> set builtInIds"
      using nb by (simp add: markCustom_id generated_id_not_builtIn)
    show "k' = ?k" if "(k', r) \<in> set (personas E)" for k'
      using that K unfolding keyed_iff by (auto simp: markCustom_id)
  qed
qed

lemma deletePersona_keeps:
  assumes P: "builtInsPresent E" and K: "keyed E"
  shows "builtInsPresent (snd (deletePersona prose i E))
       \<and> keyed (snd (deletePersona prose i E))"
proof -
  let ?E' = "snd (deletePersona prose i E)"
  note st = deletePersona_store[OF builtInsPresent_loaded[OF P, of prose], of i]
  show ?thesis
  proof (cases "\<exists>r. map_of (personas E) i = Some r \<and> isCustom (heap E ! r)")
    case True
    then obtain r where r: "map_of (personas E) i = Some r" "isCustom (heap E ! r)" by blast
    then have "personas ?E' = map_delete i (personas E)" by (simp add: st)
    from delete_keeps[OF P K st(1) this r] show ?thesis .
  next
    case False
    then have "personas ?E' = personas E" by (auto simp: st split: option.splits)
    from heap_keeps[OF P K _ this] show ?thesis by (simp add: st)
  qed
qed

lemma duplicatePersona_keeps:
  assumes P: "builtInsPresent E" and K: "keyed E"
  shows "builtInsPresent (snd (duplicatePersona prose now base newName E))
       \<and> keyed (snd (duplicatePersona prose now base newName E))"
proof -
  let ?E' = "snd (duplicatePersona prose now base newName E)"
  let ?k = "str ''persona_'' @ decimal now"
  from duplicatePersona_store[OF builtInsPresent_loaded[OF P, of prose], of base now newName]
  consider "?E' = E"
    | b where "heap ?E' = heap E @ [copyOf now newName (heap E ! b)]"
        "personas ?E' = obj_set ?k (length (heap E)) (personas E)"
    by blast
  then show ?thesis
  proof cases
    case 1
    with P K show ?thesis by simp
  next
    case 2
    show ?thesis
    proof (rule store_keeps[OF P K, of ?E' "length (heap E)" ?k])
      show "length (heap E) \<le> length (heap ?E')" by (simp add: 2)
      show "heap ?E' ! q = heap E ! q" if "q \<in> held E" "q \<noteq> length (heap E)" for q
        using keyed_held[OF K that(1)] by (simp add: 2 nth_append)
      show "personas ?E' = obj_set ?k (length (heap E)) (personas E)" by (rule 2)
      show "length (heap E) < length (heap ?E')" by (simp add: 2)
      show "persona_id (heap ?E' ! length (heap E)) = ?k" by (simp add: 2 copyOf_id)
      show "?k \<noteq> []" by (rule generated_id_not_empty)
      show "?k \<notin> set builtInIds" by (rule generated_id_not_builtIn)
      show "k' = ?k" if "(k', length (heap E)) \<in> set (personas E)" for k'
        using that K unfolding keyed_iff by fastforce
    qed
  qed
qed

lemma write_keeps:
  assumes P: "builtInsPresent E" and K: "keyed E" and A: "admits E (Write r f)"
  shows "builtInsPresent (applyOp prose (Write r f) E) \<and> keyed (applyOp prose (Write r f) E)"
proof (cases "is_object E r")
  case False
  with P K show ?thesis by simp
next
  case True
  let ?E' = "assign r f E"
  have "builtInsPresent ?E' \<and> keyed ?E'"
  proof (rule heap_keeps[OF P K])
    show "length (heap E) \<le> length (heap ?E')" by (simp add: assign_def)
    show "personas ?E' = personas E" by (simp add: assign_def)
    show "persona_id (heap ?E' ! q) = persona_id (heap E ! q)
          \<and> isCustom (heap ?E' ! q) = isCustom (heap E ! q)" if "q \<in> held E" for q
    proof (cases "q = r")
      case True
      with that A keyed_held[OF K that] show ?thesis
        by (simp add: assign_def object_def)
    next
      case False
      then show ?thesis by (simp add: assign_def)
    qed
  qed
  with True show ?thesis by simp
qed

lemma new_keeps:
  assumes P: "builtInsPresent E" and K: "keyed E"
  shows "builtInsPresent (snd (new_object p E)) \<and> keyed (snd (new_object p E))"
proof (rule heap_keeps[OF P K])
  show "length (heap E) \<le> length (heap (snd (new_object p E)))" by (simp add: new_object_def)
  show "personas (snd (new_object p E)) = personas E" by (simp add: new_object_def)
  show "persona_id (heap (snd (new_object p E)) ! q) = persona_id (heap E ! q)
        \<and> isCustom (heap (snd (new_object p E)) ! q) = isCustom (heap E ! q)"
    if "q \<in> held E" for q
    using keyed_held[OF K that] by (simp add: new_object_def nth_append)
qed

lemma applyOp_keeps:
  assumes P: "builtInsPresent E" and K: "keyed E" and A: "admits E op"
  shows "builtInsPresent (applyOp prose op E) \<and> keyed (applyOp prose op E)"
proof (cases op)
  case (New p)
  with new_keeps[OF P K] show ?thesis by simp
next
  case (Write r f)
  with write_keeps[OF P K] A show ?thesis by simp
next
  case GetAll
  with P K show ?thesis by (simp add: getAllPersonas_state builtInsPresent_loaded)
next
  case (Get i)
  with P K show ?thesis by (simp add: getPersona_state builtInsPresent_loaded)
next
  case (Save now r)
  with savePersona_keeps[OF P K] A show ?thesis by simp
next
  case (Delete i)
  with deletePersona_keeps[OF P K] show ?thesis by simp
next
  case (Duplicate now base newName)
  with duplicatePersona_keeps[OF P K] show ?thesis by simp
qed

lemma run_keeps:
  assumes "builtInsPresent E" "keyed E" "admissible prose ops E"
  shows "builtInsPresent (run prose ops E) \<and> keyed (run prose ops E)"
  using assms unfolding run_def
proof (induction ops arbitrary: E)
  case Nil
  then show ?case by simp
next
  case (Cons op ops)
  from applyOp_keeps[of E op prose] Cons.prems
  have "builtInsPresent (applyOp prose op E) \<and> keyed (applyOp prose op E)" by simp
  with Cons.IH[of "applyOp prose op E"] Cons.prems show ?case by simp
qed

lemma delete_builtIn_fails:
  assumes "builtInsPresent E" "b \<in> set builtInIds"
  shows "deletePersona prose b E = (Inl (Error (str ''Failed to delete persona'')), E)"
proof -
  from assms obtain r where "map_of (personas E) b = Some r" "\<not> isCustom (heap E ! r)"
    unfolding builtInsPresent_iff by blast
  then show ?thesis
    by (simp add: deletePersona_def Let_def builtInsPresent_loaded[OF assms(1)] object_def)
qed

lemma delete_custom_succeeds:
  assumes P: "builtInsPresent E" and K: "keyed E"
    and i: "map_of (personas E) i = Some r" "isCustom (object E r)" "\<not> rejected (storage E)"
  shows "fst (deletePersona prose i E) = Inr ()"
    and "\<forall>q \<in> set (fst (getAllPersonas prose (snd (deletePersona prose i E)))).
           persona_id (object (snd (deletePersona prose i E)) q) \<noteq> i"
proof -
  let ?E' = "snd (deletePersona prose i E)"
  note L = builtInsPresent_loaded[OF P, of prose]
  show "fst (deletePersona prose i E) = Inr ()"
    using i by (simp add: deletePersona_def Let_def L saveCustomPersonas_def setItem_def)
  from i have c: "isCustom (heap E ! r)" by (simp add: object_def)
  have st: "heap ?E' = heap E" "personas ?E' = map_delete i (personas E)"
    using i(1) c by (simp_all add: deletePersona_store[OF L])
  from delete_keeps[OF P K st i(1) c]
  have "loaded prose ?E' = ?E'" by (simp add: builtInsPresent_loaded)
  then have all: "fst (getAllPersonas prose ?E') = map snd (map_delete i (personas E))"
    by (simp add: getAllPersonas_def Let_def st)
  show "\<forall>q \<in> set (fst (getAllPersonas prose ?E')). persona_id (object ?E' q) \<noteq> i"
    unfolding all using K unfolding keyed_iff
    by (auto simp: set_map_delete object_def st)
qed

text \<open>
  C2, as the code has it. \<open>deletePersona\<close> is guarded by the custom mark of the object
  stored under the identifier; \<open>savePersona\<close> marks the object it is given, which may
  be one that the store already holds, and stores it under its identifier. From a state in
  which every built-in identifier has an entry whose object is unmarked, and every entry is
  stored under the identifier of its object: every admissible run keeps it so, where a run
  creates and writes objects and calls \<open>getAllPersonas\<close>, \<open>getPersona\<close>,
  \<open>savePersona\<close>, \<open>deletePersona\<close> and \<open>duplicatePersona\<close>, and is admissible when
  no object passed to \<open>savePersona\<close> carries a built-in identifier and no write changes the
  identifier or the mark of an object that the store holds; deleting a built-in identifier
  fails and changes nothing; and deleting an entry whose object has the mark succeeds,
  when the storage does not reject the write, after which no profile that
  \<open>getAllPersonas\<close> returns has that identifier.
\<close>

theorem builtIns_survive:
  assumes "builtInsPresent E" and "keyed E"
  shows "(admissible prose ops E \<longrightarrow>
            builtInsPresent (run prose ops E) \<and> keyed (run prose ops E))
     \<and> (\<forall>b \<in> set builtInIds.
           deletePersona prose b E = (Inl (Error (str ''Failed to delete persona'')), E))
     \<and> (\<forall>i r. map_of (personas E) i = Some r \<and> isCustom (object E r)
              \<and> \<not> rejected (storage E) \<longrightarrow>
           fst (deletePersona prose i E) = Inr ()
           \<and> (\<forall>q \<in> set (fst (getAllPersonas prose (snd (deletePersona prose i E)))).
                 persona_id (object (snd (deletePersona prose i E)) q) \<noteq> i))"
  using run_keeps[OF assms, of prose ops] delete_builtIn_fails[OF assms(1), of _ prose]
    delete_custom_succeeds[OF assms, of _ _ prose]
  by blast

text \<open>The state of the hypothesis is the one the engine starts in, as long as no stored
  custom persona has a built-in identifier or none at all.\<close>

lemma set_new_store:
  "heap (set_new p E) = heap E @ [p]"
  "personas (set_new p E) = obj_set (persona_id p) (length (heap E)) (personas E)"
  by (simp_all add: set_new_def new_object_def)

lemma set_new_keyed:
  assumes "keyed E" "persona_id p \<noteq> []"
  shows "keyed (set_new p E)"
  unfolding keyed_iff
proof (intro allI impI)
  fix k r assume "(k, r) \<in> set (personas (set_new p E))"
  then consider "k = persona_id p" "r = length (heap E)" | "(k, r) \<in> set (personas E)"
    using set_obj_set[of "persona_id p" "length (heap E)" "personas E"]
    by (auto simp: set_new_store)
  then show "k \<noteq> [] \<and> r < length (heap (set_new p E))
             \<and> persona_id (heap (set_new p E) ! r) = k"
  proof cases
    case 1
    with assms(2) show ?thesis by (simp add: set_new_store)
  next
    case 2
    with assms(1) show ?thesis
      unfolding keyed_iff by (fastforce simp: set_new_store nth_append)
  qed
qed

lemma set_new_present_self: "\<not> isCustom p \<Longrightarrow> present (set_new p E) (persona_id p)"
  by (simp add: present_def set_new_store map_of_obj_set is_object_def object_def)

lemma set_new_present_other:
  "present E b \<Longrightarrow> b \<noteq> persona_id p \<Longrightarrow> present (set_new p E) b"
  by (auto simp: present_def set_new_store map_of_obj_set is_object_def object_def nth_append
      split: option.splits)

lemma builtIn_fields [simp]:
  "persona_id (builtIn prose ident t) = str ident"
  "isCustom (builtIn prose ident t) = False"
  by (simp_all add: builtIn_def)

lemma loadBuiltInPersonas_establishes:
  assumes "personas E = []"
  shows "builtInsPresent (loadBuiltInPersonas prose E) \<and> keyed (loadBuiltInPersonas prose E)"
proof
  have K: "keyed E" using assms by (simp add: keyed_def)
  have ne: "str ''strategist'' \<noteq> []" "str ''commander'' \<noteq> []" "str ''architect'' \<noteq> []"
    "str ''catalyst'' \<noteq> []" "str ''tactical'' \<noteq> []"
    by (simp_all add: str_def)
  show "keyed (loadBuiltInPersonas prose E)"
    using K ne
    by (simp add: loadBuiltInPersonas_def builtInPersonas_def set_all_def set_new_keyed)
  have self: "present (set_new (builtIn prose ident t) F) (str ident)" for ident t F
    using set_new_present_self[of "builtIn prose ident t" F] by simp
  have other: "present (set_new (builtIn prose ident t) F) b"
    if "present F b" "b \<noteq> str ident" for ident t F b
    using set_new_present_other[of F b "builtIn prose ident t"] that by simp
  have d: "str ''strategist'' \<noteq> str ''commander''" "str ''strategist'' \<noteq> str ''architect''"
    "str ''strategist'' \<noteq> str ''catalyst''" "str ''strategist'' \<noteq> str ''tactical''"
    "str ''commander'' \<noteq> str ''architect''" "str ''commander'' \<noteq> str ''catalyst''"
    "str ''commander'' \<noteq> str ''tactical''" "str ''architect'' \<noteq> str ''catalyst''"
    "str ''architect'' \<noteq> str ''tactical''" "str ''catalyst'' \<noteq> str ''tactical''"
    by (simp_all add: str_def)
  show "builtInsPresent (loadBuiltInPersonas prose E)"
    by (simp add: builtInsPresent_def builtInIds_def loadBuiltInPersonas_def
        builtInPersonas_def set_all_def self other d)
qed

lemma set_all_keeps:
  assumes "builtInsPresent F" "keyed F"
    and "\<forall>c \<in> set cs. persona_id c \<notin> set builtInIds \<and> persona_id c \<noteq> []"
  shows "builtInsPresent (set_all cs F) \<and> keyed (set_all cs F)"
  using assms unfolding set_all_def
proof (induction cs arbitrary: F)
  case Nil
  then show ?case by simp
next
  case (Cons c cs)
  have "builtInsPresent (set_new c F)"
    unfolding builtInsPresent_def
  proof
    fix b assume "b \<in> set builtInIds"
    with Cons.prems(1,3) show "present (set_new c F) b"
      by (intro set_new_present_other) (auto simp: builtInsPresent_def)
  qed
  moreover have "keyed (set_new c F)"
    using Cons.prems(2,3) by (simp add: set_new_keyed)
  ultimately show ?case
    using Cons.IH[of "set_new c F"] Cons.prems(3) by simp
qed

lemma store_of_storage [simp]:
  "builtInsPresent (E\<lparr>storage := st\<rparr>) = builtInsPresent E"
  "keyed (E\<lparr>storage := st\<rparr>) = keyed E"
  by (simp_all add: builtInsPresent_iff keyed_iff)

lemma startup_establishes:
  assumes "personas E = []"
    and "\<forall>cs. entries (storage E) personasKey = Some cs
           \<longrightarrow> (\<forall>c \<in> set cs. persona_id c \<notin> set builtInIds \<and> persona_id c \<noteq> [])"
  shows "builtInsPresent (loaded prose E) \<and> keyed (loaded prose E)"
proof -
  let ?B = "loadBuiltInPersonas prose E"
  note B = loadBuiltInPersonas_establishes[OF assms(1), of prose]
  have st: "storage ?B = storage E"
  proof -
    have "storage (set_all ps F) = storage F" for ps F
      unfolding set_all_def
      by (induction ps arbitrary: F) (simp_all add: set_new_def new_object_def)
    then show ?thesis by (simp add: loadBuiltInPersonas_def)
  qed
  show ?thesis
  proof (cases "getItem personasKey (storage ?B)")
    case (Pair res st')
    show ?thesis
    proof (cases res)
      case (Inl e)
      with Pair B assms(1) show ?thesis
        by (simp add: loaded_def initPersonas_def loadCustomPersonas_def)
    next
      case (Inr found)
      show ?thesis
      proof (cases found)
        case None
        with Pair Inr B assms(1) show ?thesis
          by (simp add: loaded_def initPersonas_def loadCustomPersonas_def)
      next
        case (Some cs)
        with Pair Inr have "entries (storage E) personasKey = Some cs"
          by (simp add: getItem_def st split: if_splits)
        with assms(2)
        have ok: "\<forall>c \<in> set cs. persona_id c \<notin> set builtInIds \<and> persona_id c \<noteq> []"
          by blast
        from B have "builtInsPresent (?B\<lparr>storage := st'\<rparr>)" "keyed (?B\<lparr>storage := st'\<rparr>)"
          by simp_all
        from set_all_keeps[OF this ok] Pair Inr Some assms(1) show ?thesis
          by (simp add: loaded_def initPersonas_def loadCustomPersonas_def)
      qed
    qed
  qed
qed

text \<open>The definitions that an evaluation of a run unfolds.\<close>

lemmas run_eval = persona_eval builtInIds_def run_def held_def listing_def

text \<open>
  C2, as the claim states it, fails: after a save of a new profile under the identifier
  \<open>commander\<close>, which replaces the built-in entry by a custom one, the delete succeeds,
  and \<open>getAllPersonas\<close> returns four personas, none of them \<open>commander\<close>.
\<close>

theorem overwritten_builtIn_is_deleted_counterexample:
  "listing blank_prose fresh_engine = builtInIds
   \<and> fst (deletePersona blank_prose (str ''commander'')
          (run blank_prose
             [GetAll, New ((blank_prose ''mine'')\<lparr>persona_id := str ''commander''\<rparr>),
              Save 1 5] fresh_engine)) = Inr ()
   \<and> listing blank_prose
       (run blank_prose
          [GetAll, New ((blank_prose ''mine'')\<lparr>persona_id := str ''commander''\<rparr>),
           Save 1 5, Delete (str ''commander'')] fresh_engine)
     = map str [''strategist'', ''architect'', ''catalyst'', ''tactical'']"
  by (simp add: run_eval)

text \<open>
  The same happens with no save under a built-in identifier, through the object that
  \<open>getPersona\<close> hands out: the caller gives the object of \<open>commander\<close> another
  identifier and saves it, which marks it custom where it is, under \<open>commander\<close> as
  well; the delete then removes the entry. This run is not admissible: its write changes
  the identifier of an object that the store holds.
\<close>

lemma aliased_builtIn_is_deleted:
  "fst (getPersona blank_prose (str ''commander'') fresh_engine) = Some 1
   \<and> listing blank_prose
       (run blank_prose
          [Get (str ''commander''), Write 1 (\<lambda>p. p\<lparr>persona_id := str ''mine2''\<rparr>),
           Save 1 1, Delete (str ''commander'')] fresh_engine)
     = map str [''strategist'', ''architect'', ''catalyst'', ''tactical'', ''mine2'']
   \<and> \<not> admissible blank_prose
         [Get (str ''commander''), Write 1 (\<lambda>p. p\<lparr>persona_id := str ''mine2''\<rparr>),
          Save 1 1, Delete (str ''commander'')] fresh_engine"
  by (simp add: run_eval)

text \<open>The witness starts from a new engine that has loaded its personas. The run creates a
  profile, saves it (it gets the identifier \<open>persona_7\<close>), renames it, duplicates
  \<open>commander\<close> and tries two deletes; the deletes of the last three parts are made after
  the save.\<close>

theorem builtIns_survive_witness:
  "builtInsPresent (run blank_prose
       [New (blank_prose ''mine''), Save 7 5, Write 5 (\<lambda>p. p\<lparr>name := str ''Mine''\<rparr>),
        Duplicate 8 (str ''commander'') [], Delete (str ''commander''),
        Delete (str ''persona_7'')]
       (loaded blank_prose fresh_engine))
   \<and> fst (deletePersona blank_prose (str ''commander'')
       (run blank_prose [New (blank_prose ''mine''), Save 7 5]
          (loaded blank_prose fresh_engine)))
     = Inl (Error (str ''Failed to delete persona''))
   \<and> fst (deletePersona blank_prose (str ''persona_7'')
       (run blank_prose [New (blank_prose ''mine''), Save 7 5]
          (loaded blank_prose fresh_engine))) = Inr ()
   \<and> listing blank_prose
       (snd (deletePersona blank_prose (str ''persona_7'')
         (run blank_prose [New (blank_prose ''mine''), Save 7 5]
            (loaded blank_prose fresh_engine)))) = builtInIds"
proof -
  let ?E = "loaded blank_prose fresh_engine"
  let ?ops = "[New (blank_prose ''mine''), Save 7 5, Write 5 (\<lambda>p. p\<lparr>name := str ''Mine''\<rparr>),
               Duplicate 8 (str ''commander'') [], Delete (str ''commander''),
               Delete (str ''persona_7'')]"
  let ?E1 = "run blank_prose [New (blank_prose ''mine''), Save 7 5] ?E"
  have start: "builtInsPresent ?E" "keyed ?E"
    using startup_establishes[of fresh_engine blank_prose]
    by (simp_all add: fresh_engine_def empty_storage_def)
  have a: "admissible blank_prose ?ops ?E"
    by (simp add: run_eval decimal.simps)
  have a1: "admissible blank_prose [New (blank_prose ''mine''), Save 7 5] ?E"
    by (simp add: run_eval decimal.simps)
  from builtIns_survive[OF start, of blank_prose "[New (blank_prose ''mine''), Save 7 5]"] a1
  have inv: "builtInsPresent ?E1" "keyed ?E1" by simp_all
  have b: "str ''commander'' \<in> set builtInIds" by (simp add: builtInIds_def)
  have c: "map_of (personas ?E1) (str ''persona_7'') = Some 5 \<and> isCustom (object ?E1 5)
           \<and> \<not> rejected (storage ?E1)"
    by (simp add: run_eval decimal.simps)
  have d: "listing blank_prose (snd (deletePersona blank_prose (str ''persona_7'') ?E1))
             = builtInIds"
    by (simp add: run_eval decimal.simps)
  from builtIns_survive[OF start, of blank_prose ?ops] a
  have 1: "builtInsPresent (run blank_prose ?ops ?E)" by simp
  from builtIns_survive[OF inv, of blank_prose] b c
  have 2: "fst (deletePersona blank_prose (str ''commander'') ?E1)
             = Inl (Error (str ''Failed to delete persona''))"
    and 3: "fst (deletePersona blank_prose (str ''persona_7'') ?E1) = Inr ()"
    by (metis fst_conv)+
  from 1 2 3 d show ?thesis by (simp only: simp_thms)
qed

end
